(* ===== verification/Prelude.thy ===== *)
theory Prelude
  imports "HOL-Library.Word" "HOL-Library.List_Lexorder" "HOL-Library.Multiset"
begin

text \<open>
  What every component shares: the machine types of the C++ code, its ways to go wrong as values
  of a sum type, the little-endian layout that \<open>std::memcpy\<close> of an integer produces on the
  supported (little-endian) hosts, and \<open>std::memcpy\<close> into a \<open>std::vector<std::byte>\<close>
  with its bounds written out.
\<close>

unbundle bit_operations_syntax

type_synonym byte = "8 word"
type_synonym bytes = "byte list"
type_synonym u16 = "16 word"
type_synonym u64 = "64 word"
type_synonym uuid = "128 word"

named_theorems res_simps \<open>running the error monad\<close>
named_theorems size_simps \<open>sizes in bytes of what the code writes\<close>

section \<open>Errors as values\<close>

text \<open>
  \<open>Out_of_bounds\<close>: an access past the end of an array, a span or a vector (undefined
  behaviour in the code, which checks none of them). \<open>Bad_request\<close>: the protocol library's
  \<open>from_buffer\<close> gave no request. \<open>Relock\<close>: a thread locks a \<open>std::mutex\<close> that it
  already holds. \<open>Dangling\<close>: a stored pointer is followed after its target is gone.
  \<open>Serialize\<close>: \<open>serialize_exception\<close> with its message. \<open>Out_of_fuel\<close>: a recursion of
  the code is modelled with fuel and the fuel did not suffice; it stands for no behaviour, and the
  theory concerned proves that it does not occur.
\<close>

datatype error =
    Out_of_bounds
  | Bad_request
  | Relock
  | Dangling
  | Serialize string
  | Out_of_fuel

type_synonym 'a res = "error + 'a"

fun bind_res :: "'a res \<Rightarrow> ('a \<Rightarrow> 'b res) \<Rightarrow> 'b res" where
  "bind_res (Inl e) f = Inl e"
| "bind_res (Inr x) f = f x"

fun fold_res :: "('a \<Rightarrow> 's \<Rightarrow> 's res) \<Rightarrow> 'a list \<Rightarrow> 's \<Rightarrow> 's res" where
  "fold_res f [] s = Inr s"
| "fold_res f (x # xs) s = bind_res (f x s) (fold_res f xs)"

definition of_option :: "error \<Rightarrow> 'a option \<Rightarrow> 'a res" where
  "of_option e x = (case x of None \<Rightarrow> Inl e | Some y \<Rightarrow> Inr y)"

lemma bind_res_Inr_iff [res_simps]:
  "bind_res m f = Inr y \<longleftrightarrow> (\<exists>x. m = Inr x \<and> f x = Inr y)"
  by (cases m) auto

lemma bind_res_assoc: "bind_res (bind_res m f) g = bind_res m (\<lambda>x. bind_res (f x) g)"
  by (cases m) auto

lemma of_option_simps [simp]:
  "of_option e None = Inl e"
  "of_option e (Some x) = Inr x"
  by (simp_all add: of_option_def)

lemma of_option_Inr_iff [res_simps]: "of_option e x = Inr y \<longleftrightarrow> x = Some y"
  by (cases x) auto

lemma fold_res_append:
  "fold_res f (xs @ ys) s = bind_res (fold_res f xs s) (fold_res f ys)"
proof (induction xs arbitrary: s)
  case (Cons x xs)
  then show ?case by (cases "f x s") auto
qed simp

lemma fold_res_invariant:
  assumes "fold_res f xs s = Inr t" "P s"
    and "\<And>x s t. x \<in> set xs \<Longrightarrow> f x s = Inr t \<Longrightarrow> P s \<Longrightarrow> P t"
  shows "P t"
  using assms
proof (induction xs arbitrary: s)
  case Nil
  then show ?case by simp
next
  case (Cons x xs)
  from Cons.prems(1) obtain u where u: "f x s = Inr u" "fold_res f xs u = Inr t"
    by (auto simp: res_simps)
  have "P u" using Cons.prems(2,3) u(1) by auto
  with u(2) show ?case
    by (rule Cons.IH) (use Cons.prems(3) in auto)
qed

section \<open>Little-endian integers\<close>

definition word_to_le :: "'a::len word \<Rightarrow> bytes" where
  "word_to_le w = map (\<lambda>i. ucast (drop_bit (8 * i) w)) [0..<LENGTH('a) div 8]"

definition le_to_word :: "bytes \<Rightarrow> 'a::len word" where
  "le_to_word bs = foldr (\<lambda>b w. ucast b OR push_bit 8 w) bs 0"

lemma length_word_to_le [simp, size_simps]:
  "length (word_to_le (w :: 'a::len word)) = LENGTH('a) div 8"
  by (simp add: word_to_le_def)

lemma nth_word_to_le:
  "i < LENGTH('a) div 8 \<Longrightarrow>
     word_to_le (w :: 'a::len word) ! i = ucast (drop_bit (8 * i) w)"
  by (simp add: word_to_le_def)

lemma bit_le_to_word:
  "bit (le_to_word bs :: 'a::len word) n \<longleftrightarrow>
     n < LENGTH('a) \<and> n div 8 < length bs \<and> bit (bs ! (n div 8)) (n mod 8)"
proof (induction bs arbitrary: n)
  case Nil
  then show ?case by (simp add: le_to_word_def)
next
  case (Cons b bs)
  have step: "le_to_word (b # bs) = (ucast b OR push_bit 8 (le_to_word bs) :: 'a word)"
    by (simp add: le_to_word_def)
  show ?case
  proof (cases "n < 8")
    case True
    then show ?thesis
      by (auto simp: step bit_or_iff bit_ucast_iff bit_push_bit_iff)
  next
    case False
    then obtain m where m: "n = m + 8" using le_Suc_ex by (metis add.commute not_less)
    have "\<not> bit b n" using False by (auto dest: bit_imp_le_length)
    moreover have "(m + 8) div 8 = Suc (m div 8)" by simp
    ultimately show ?thesis
      using m by (auto simp: step bit_or_iff bit_ucast_iff bit_push_bit_iff Cons.IH)
  qed
qed

lemma le_to_word_to_le:
  assumes "8 dvd LENGTH('a)"
  shows "le_to_word (word_to_le w) = (w :: 'a::len word)"
proof (rule bit_eqI)
  fix n
  assume "possible_bit TYPE('a word) n"
  then have n: "n < LENGTH('a)" by (simp add: possible_bit_def)
  with assms have d: "n div 8 < LENGTH('a) div 8"
    by (auto simp: dvd_def)
  have "8 * (n div 8) + n mod 8 = n" "n mod 8 < 8" by simp_all
  then show "bit (le_to_word (word_to_le w) :: 'a word) n = bit w n"
    using n d
    by (simp add: bit_le_to_word nth_word_to_le bit_ucast_iff bit_drop_bit_eq add.commute
        del: mod_less_divisor)
qed

lemma unat_ucast_up:
  assumes "LENGTH('a) \<le> LENGTH('b)"
  shows "unat (ucast (w :: 'a::len word) :: 'b::len word) = unat w"
proof -
  have "unat w < 2 ^ LENGTH('a)" by simp
  also have "\<dots> \<le> 2 ^ LENGTH('b)" using assms by simp
  finally show ?thesis by (simp add: unsigned_ucast_eq take_bit_nat_eq_self)
qed

section \<open>Writing into a byte vector\<close>

text \<open>
  \<open>std::memcpy(buffer.data() + offset, src, n)\<close>: the code never compares \<open>offset + n\<close>
  with the vector's size, so a write past its end is an error of the model.
\<close>

definition poke :: "nat \<Rightarrow> bytes \<Rightarrow> bytes \<Rightarrow> bytes res" where
  "poke off src buf =
     (if off + length src \<le> length buf
      then Inr (take off buf @ src @ drop (off + length src) buf) else Inl Out_of_bounds)"

lemma poke_ok [res_simps]:
  "poke off src buf = Inr buf' \<longleftrightarrow>
     off + length src \<le> length buf \<and>
     buf' = take off buf @ src @ drop (off + length src) buf"
  by (auto simp: poke_def)

lemma poke_append:
  "length src \<le> length rest \<Longrightarrow>
     poke (length pre) src (pre @ rest) = Inr (pre @ src @ drop (length src) rest)"
  by (simp add: poke_def)

section \<open>Lists\<close>

lemma mset_sort_key_Cons [simp]: "mset (sort_key f (x # xs)) = add_mset x (mset xs)"
  by (metis mset.simps(2) mset_sort)

lemma distinct_map_filter_key: "distinct (map f xs) \<Longrightarrow> distinct (map f (filter P xs))"
  by (induction xs) auto

lemma sum_list_map_add:
  "sum_list (map (\<lambda>x. f x + g x) xs) =
     sum_list (map f xs) + (sum_list (map g xs) :: 'a::comm_monoid_add)"
  by (induction xs) (auto simp: add_ac)

end
