(* ===== verification/Protocol.thy ===== *)
theory Protocol
  imports Prelude
begin

text \<open>
  The part of the wire protocol that the server uses and that is not under \<open>src/\<close>: the
  fetched library \<open>throttr/protocol\<close> (included by \<open>protocol_wrapper.hpp\<close>) with its
  enumerations, header sizes and \<open>from_buffer\<close> parsers. All of it is a parameter of the model,
  the record \<open>protocol\<close>; only the names the server's sources use appear here. The iteration
  orders of the two hashed containers (\<open>boost::multi_index\<close> hashed index,
  \<open>std::unordered_map\<close>) are parameters of the same record.

  \<open>value_type\<close> is fixed at build time (\<open>RUNTIME_VALUE_SIZE\<close>: 8, 16, 32 or 64 bits); the
  whole development is polymorphic in its width \<open>'v\<close>, and the width is read off the type.
\<close>

section \<open>Enumerations\<close>

text \<open>The request types that \<open>commands_service.cpp\<close> and \<open>messages_service.cpp\<close> name.\<close>

datatype request_types =
    Insert_req | Set_req | Query_req | Get_req | Update_req | Purge_req | List_req | Info_req
  | Stat_req | Stats_req | Subscribe_req | Unsubscribe_req | Publish_req | Channel_req
  | Channels_req | Whoami_req | Connection_req | Connections_req | Event_req

text \<open>The enumerators in the order in which \<open>messages_service\<close> registers them.\<close>

instantiation request_types :: enum
begin

definition enum_request_types :: "request_types list" where
  "enum_request_types =
     [Insert_req, Set_req, Query_req, Get_req, Update_req, Purge_req, List_req, Stat_req, Stats_req,
      Connections_req, Connection_req, Whoami_req, Subscribe_req, Unsubscribe_req, Publish_req,
      Channels_req, Channel_req, Info_req, Event_req]"

definition enum_all_request_types :: "(request_types \<Rightarrow> bool) \<Rightarrow> bool" where
  "enum_all_request_types P \<longleftrightarrow> list_all P (enum_class.enum :: request_types list)"

definition enum_ex_request_types :: "(request_types \<Rightarrow> bool) \<Rightarrow> bool" where
  "enum_ex_request_types P \<longleftrightarrow> list_ex P (enum_class.enum :: request_types list)"

instance
proof
  show U: "(UNIV :: request_types set) = set enum_class.enum"
  proof (rule set_eqI)
    show "r \<in> UNIV \<longleftrightarrow> r \<in> set enum_class.enum" for r :: request_types
      by (cases r) (simp_all add: enum_request_types_def)
  qed
  show "distinct (enum_class.enum :: request_types list)" by (simp add: enum_request_types_def)
  show "enum_class.enum_all P \<longleftrightarrow> Ball UNIV P" for P :: "request_types \<Rightarrow> bool"
    by (simp add: enum_all_request_types_def list_all_iff U)
  show "enum_class.enum_ex P \<longleftrightarrow> Bex UNIV P" for P :: "request_types \<Rightarrow> bool"
    by (simp add: enum_ex_request_types_def list_ex_iff U)
qed

end

text \<open>
  A C++ enumeration with a fixed underlying type holds any value of that type: a byte that no
  enumerator has is kept by the last constructor.
\<close>

datatype ttl_types =
    Nanoseconds | Microseconds | Milliseconds | Seconds | Minutes | Hours | Ttl_unnamed byte

datatype entry_types = Counter | Raw | Entry_unnamed byte

datatype attribute_types = Quota | Ttl | Attribute_unnamed byte

datatype change_types = Patch | Increase | Decrease | Change_unnamed byte

section \<open>Requests\<close>

text \<open>What \<open>request_*::from_buffer\<close> returns, with the fields the commands read.\<close>

record request_insert =
  ins_key :: bytes
  ins_quota :: bytes
  ins_ttl_type :: ttl_types
  ins_ttl :: bytes

record request_set =
  set_key :: bytes
  set_value :: bytes
  set_ttl_type :: ttl_types
  set_ttl :: bytes

record (overloaded) 'v request_update =
  upd_attribute :: attribute_types
  upd_change :: change_types
  upd_value :: "'v::len word"
  upd_key :: bytes

record request_publish =
  pub_channel :: bytes
  pub_value :: bytes

record request_event =
  evt_channel :: bytes
  evt_buffer :: bytes

section \<open>The parameter record\<close>

text \<open>
  The key-only requests (\<open>query\<close>, \<open>purge\<close>, \<open>stat\<close>) and the channel-only ones
  (\<open>subscribe\<close>, \<open>unsubscribe\<close>, \<open>channel\<close>) parse to one byte span; \<open>connection\<close>
  parses to the 16 bytes of an id. \<open>None\<close> is "no request".

  \<open>hash_rank ks\<close> orders the elements of the storage by their keys when the stored keys are
  \<open>ks\<close>, \<open>uuid_rank\<close> the connection maps: any order at all is some rank, so nothing is assumed
  of the containers' hashing.
\<close>

record (overloaded) 'v protocol =
  request_code :: "request_types \<Rightarrow> byte"
  header_size :: "request_types \<Rightarrow> nat"
  ttl_code :: "ttl_types \<Rightarrow> byte"
  ttl_of_code :: "byte \<Rightarrow> ttl_types"
  entry_code :: "entry_types \<Rightarrow> byte"
  entry_of_code :: "byte \<Rightarrow> entry_types"
  parse_insert :: "bytes \<Rightarrow> request_insert option"
  parse_set :: "bytes \<Rightarrow> request_set option"
  parse_query :: "bytes \<Rightarrow> bytes option"
  parse_update :: "bytes \<Rightarrow> 'v::len request_update option"
  parse_purge :: "bytes \<Rightarrow> bytes option"
  parse_stat :: "bytes \<Rightarrow> bytes option"
  parse_subscribe :: "bytes \<Rightarrow> bytes option"
  parse_unsubscribe :: "bytes \<Rightarrow> bytes option"
  parse_channel :: "bytes \<Rightarrow> bytes option"
  parse_publish :: "bytes \<Rightarrow> request_publish option"
  parse_event :: "bytes \<Rightarrow> request_event option"
  parse_connection :: "bytes \<Rightarrow> bytes option"
  hash_rank :: "bytes list \<Rightarrow> bytes \<Rightarrow> nat"
  uuid_rank :: "uuid list \<Rightarrow> uuid \<Rightarrow> nat"

text \<open>\<open>sizeof(value_type)\<close>.\<close>

definition value_size :: "('v::len, 'x) protocol_scheme \<Rightarrow> nat" where
  "value_size E = LENGTH('v) div 8"

lemma value_size_simp [simp]: "value_size (E :: ('v::len, 'x) protocol_scheme) = LENGTH('v) div 8"
  by (simp add: value_size_def)

text \<open>
  Documented facts about the enumerations, used as hypotheses where a proof needs them: the
  enumerators are distinct and small enough for the server's tables of 32 slots.
\<close>

definition request_codes_ok :: "('v::len, 'x) protocol_scheme \<Rightarrow> bool" where
  "request_codes_ok E \<longleftrightarrow> inj (request_code E) \<and> (\<forall>r. unat (request_code E r) < 32)"

text \<open>
  \<open>std::memcpy(&value, span.data(), sizeof(value_type))\<close> and \<open>little_to_native\<close>: the span's
  length is not compared with the size read.
\<close>

definition read_value :: "('v::len, 'x) protocol_scheme \<Rightarrow> bytes \<Rightarrow> 'v word res" where
  "read_value E bs =
     (if length bs < value_size E then Inl Out_of_bounds
      else Inr (le_to_word (take (value_size E) bs)))"

lemma read_value_ok [res_simps]:
  "read_value (E :: ('v::len, 'x) protocol_scheme) bs = Inr v \<longleftrightarrow>
     LENGTH('v) div 8 \<le> length bs \<and> v = le_to_word (take (LENGTH('v) div 8) bs)"
  by (auto simp: read_value_def)

lemma read_value_word_to_le:
  assumes "8 dvd LENGTH('v)"
  shows "read_value (E :: ('v::len, 'x) protocol_scheme) (word_to_le v @ rest) = Inr v"
  using le_to_word_to_le [OF assms, of v] by (simp add: read_value_def)

end
