(* ===== verification/Metrics.thy ===== *)
theory Metrics
  imports Prelude
begin

text \<open>
  The counters of \<open>metric.hpp\<close>, \<open>entry_metrics.hpp\<close>, \<open>connection_metrics.hpp\<close> and
  \<open>subscription_metrics.hpp\<close> (the build with \<open>ENABLED_FEATURE_METRICS\<close>, the default). Every
  field is an \<open>std::atomic<uint64_t>\<close>: additions wrap.
\<close>

section \<open>metric\<close>

record metric =
  m_count :: u64
  m_accumulator :: u64
  m_per_minute :: u64

definition new_metric :: metric where
  "new_metric = \<lparr>m_count = 0, m_accumulator = 0, m_per_minute = 0\<rparr>"

definition mark :: "u64 \<Rightarrow> metric \<Rightarrow> metric" where
  "mark step m = m\<lparr>m_count := m_count m + step, m_accumulator := m_accumulator m + step\<rparr>"

definition compute :: "metric \<Rightarrow> metric" where
  "compute m = m\<lparr>m_per_minute := m_count m, m_count := 0\<rparr>"

text \<open>A metric that is copied or moved gives the new one its three counts and keeps them; \<open>self\<close> says that a
  metric is assigned to itself.\<close>

definition move_metric :: "metric \<Rightarrow> metric" where
  "move_metric other = \<lparr>m_count = m_count other, m_accumulator = m_accumulator other, m_per_minute = m_per_minute other\<rparr>"

definition copy_metric :: "metric \<Rightarrow> metric" where
  "copy_metric other = \<lparr>m_count = m_count other, m_accumulator = m_accumulator other, m_per_minute = m_per_minute other\<rparr>"

definition move_assign_metric :: "bool \<Rightarrow> metric \<Rightarrow> metric \<Rightarrow> metric" where
  "move_assign_metric self this other = (if \<not> self
     then this\<lparr>m_count := m_count other, m_accumulator := m_accumulator other, m_per_minute := m_per_minute other\<rparr>
     else this)"

definition copy_assign_metric :: "bool \<Rightarrow> metric \<Rightarrow> metric \<Rightarrow> metric" where
  "copy_assign_metric self this other = (if \<not> self
     then this\<lparr>m_count := m_count other, m_accumulator := m_accumulator other, m_per_minute := m_per_minute other\<rparr>
     else this)"

lemma metrics_by_value:
  "move_metric m = m" "copy_metric m = m" "move_assign_metric self this m = (if self then this else m)"
  "copy_assign_metric self this m = (if self then this else m)"
  by (simp_all add: move_metric_def copy_metric_def move_assign_metric_def copy_assign_metric_def)

lemma mark_fields [simp]:
  "m_count (mark n m) = m_count m + n"
  "m_accumulator (mark n m) = m_accumulator m + n"
  "m_per_minute (mark n m) = m_per_minute m"
  by (simp_all add: mark_def)

lemma compute_fields [simp]:
  "m_count (compute m) = 0"
  "m_accumulator (compute m) = m_accumulator m"
  "m_per_minute (compute m) = m_count m"
  by (simp_all add: compute_def)

section \<open>The metrics of an entry, a connection and a subscription\<close>

record entry_metrics =
  em_reads :: u64
  em_writes :: u64
  em_reads_accumulator :: u64
  em_writes_accumulator :: u64
  em_reads_per_minute :: u64
  em_writes_per_minute :: u64

definition new_entry_metrics :: entry_metrics where
  "new_entry_metrics = \<lparr>em_reads = 0, em_writes = 0, em_reads_accumulator = 0, em_writes_accumulator = 0,
     em_reads_per_minute = 0, em_writes_per_minute = 0\<rparr>"

definition count_read :: "entry_metrics \<Rightarrow> entry_metrics" where
  "count_read m = m\<lparr>em_reads := em_reads m + 1\<rparr>"

definition count_write :: "entry_metrics \<Rightarrow> entry_metrics" where
  "count_write m = m\<lparr>em_writes := em_writes m + 1\<rparr>"

record connection_network_metrics =
  net_read_bytes :: metric
  net_write_bytes :: metric
  net_published_bytes :: metric
  net_received_bytes :: metric

record connection_memory_metrics =
  mem_allocated_bytes :: metric
  mem_consumed_bytes :: metric

record connection_metrics =
  cm_network :: connection_network_metrics
  cm_memory :: connection_memory_metrics
  cm_commands :: "metric list"

definition new_connection_metrics :: connection_metrics where
  "new_connection_metrics =
     \<lparr>cm_network = \<lparr>net_read_bytes = new_metric, net_write_bytes = new_metric,
        net_published_bytes = new_metric, net_received_bytes = new_metric\<rparr>,
      cm_memory = \<lparr>mem_allocated_bytes = new_metric, mem_consumed_bytes = new_metric\<rparr>,
      cm_commands = replicate 32 new_metric\<rparr>"

record subscription_metrics =
  sm_read_bytes :: metric
  sm_write_bytes :: metric

definition new_subscription_metrics :: subscription_metrics where
  "new_subscription_metrics = \<lparr>sm_read_bytes = new_metric, sm_write_bytes = new_metric\<rparr>"

text \<open>
  \<open>commands_[i].mark()\<close> on a \<open>std::array<metric, 32>\<close>: \<open>operator[]\<close> does not check.
\<close>

definition mark_command :: "byte \<Rightarrow> metric list \<Rightarrow> metric list res" where
  "mark_command ty ms =
     (if unat ty < length ms then Inr (ms[unat ty := mark 1 (ms ! unat ty)])
      else Inl Out_of_bounds)"

lemma length_mark_command: "mark_command ty ms = Inr ms' \<Longrightarrow> length ms' = length ms"
  by (auto simp: mark_command_def split: if_splits)

lemma mark_command_iff [res_simps]:
  "mark_command ty ms = Inr ms' \<longleftrightarrow>
     unat ty < length ms \<and> ms' = ms[unat ty := mark 1 (ms ! unat ty)]"
  by (auto simp: mark_command_def)

section \<open>Histories\<close>

text \<open>The two updates of a metric, as a history of them is seen from outside.\<close>

datatype metric_op = Mark u64 | Compute

fun metric_step :: "metric \<Rightarrow> metric_op \<Rightarrow> metric" where
  "metric_step m (Mark n) = mark n m"
| "metric_step m Compute = compute m"

fun marked :: "metric_op list \<Rightarrow> u64" where
  "marked [] = 0"
| "marked (Mark n # ops) = n + marked ops"
| "marked (Compute # ops) = marked ops"

definition since_compute :: "metric_op list \<Rightarrow> metric_op list" where
  "since_compute ops = rev (takeWhile (\<lambda>op. op \<noteq> Compute) (rev ops))"

definition last_window :: "metric_op list \<Rightarrow> metric_op list" where
  "last_window ops = since_compute (rev (tl (dropWhile (\<lambda>op. op \<noteq> Compute) (rev ops))))"

lemma marked_append [simp]: "marked (xs @ ys) = marked xs + marked ys"
  by (induction xs rule: marked.induct) simp_all

lemma since_compute_snoc [simp]:
  "since_compute (ops @ [Compute]) = []"
  "since_compute (ops @ [Mark n]) = since_compute ops @ [Mark n]"
  by (simp_all add: since_compute_def)

lemma last_window_snoc [simp]:
  "last_window (ops @ [Compute]) = since_compute ops"
  "last_window (ops @ [Mark n]) = last_window ops"
  by (simp_all add: last_window_def)

text \<open>Whatever marks and minute ticks a metric has seen, its accumulator is the sum of all
  marks, its count the sum of the marks since the last tick, and its per-minute value the sum of the
  marks in the last complete window (all modulo \<open>2 ^ 64\<close>).\<close>

theorem metric_history:
  "fold (\<lambda>op m. metric_step m op) ops new_metric =
     \<lparr>m_count = marked (since_compute ops), m_accumulator = marked ops,
      m_per_minute = marked (last_window ops)\<rparr>"
proof (induction ops rule: rev_induct)
  case Nil
  show ?case by (simp add: new_metric_def since_compute_def last_window_def)
next
  case (snoc op ops)
  then show ?case by (cases op) (simp_all add: mark_def compute_def)
qed

end
