(* ===== verification/Storage.thy ===== *)
theory Storage
  imports Protocol Metrics
begin

text \<open>
  \<open>entry.hpp\<close> / \<open>entry.cpp\<close>, \<open>entry_wrapper.hpp\<close> and \<open>storage.hpp\<close>: the stored
  entries and the container of them, a \<open>boost::multi_index\<close> with one unique hashed index by key.
  The container is node based: an element keeps its address until it is erased, and responses hold
  pointers into elements, so the model gives every element the number of its node.

  \<open>reusable_buffer\<close> contents are kept by value: the theory \<open>Pools\<close> shows that a pool never
  hands out a buffer that is still in use.
\<close>

section \<open>Entries\<close>

record (overloaded) 'v entry =
  e_type :: entry_types
  e_counter :: "'v::len word"
  e_buffer :: bytes
  e_ttl_type :: ttl_types
  e_expires_at :: u64

definition make_entry ::
  "('v::len, 'x) protocol_scheme \<Rightarrow> entry_types \<Rightarrow> bytes \<Rightarrow> ttl_types \<Rightarrow> u64 \<Rightarrow> 'v entry res" where
  "make_entry E type value ttl_type expires_at =
     (if type = Raw
      then Inr \<lparr>e_type = type, e_counter = 0, e_buffer = value, e_ttl_type = ttl_type,
             e_expires_at = expires_at\<rparr>
      else bind_res (read_value E value) (\<lambda>parsed.
             Inr \<lparr>e_type = type, e_counter = parsed, e_buffer = [], e_ttl_type = ttl_type,
               e_expires_at = expires_at\<rparr>))"

definition update_buffer :: "bytes \<Rightarrow> 'v::len entry \<Rightarrow> 'v entry" where
  "update_buffer value e = e\<lparr>e_buffer := value\<rparr>"

record (overloaded) 'v entry_wrapper =
  w_key :: bytes
  w_entry :: "'v::len entry"
  w_expired :: bool
  w_metrics :: entry_metrics

text \<open>The constructor counts the creation as one write.\<close>

definition make_wrapper ::
  "('v::len, 'x) protocol_scheme \<Rightarrow> bytes \<Rightarrow> entry_types \<Rightarrow> bytes \<Rightarrow> ttl_types \<Rightarrow> u64
     \<Rightarrow> 'v entry_wrapper res" where
  "make_wrapper E k type value ttl_type expires_at =
     bind_res (make_entry E type value ttl_type expires_at) (\<lambda>e.
       Inr \<lparr>w_key = k, w_entry = e, w_expired = False,
            w_metrics = count_write new_entry_metrics\<rparr>)"

lemma make_wrapper_fields:
  assumes "make_wrapper E k ty v tt ex = Inr w"
  shows "w_key w = k" "w_expired w = False" "e_type (w_entry w) = ty" "e_ttl_type (w_entry w) = tt"
    "e_expires_at (w_entry w) = ex" "em_reads (w_metrics w) = 0" "em_writes (w_metrics w) = 1"
  using assms
  by (auto simp: make_wrapper_def make_entry_def count_write_def new_entry_metrics_def res_simps
    split: if_splits)

section \<open>The container\<close>

type_synonym 'v storage = "(nat \<times> 'v entry_wrapper) list"

definition storage_find :: "bytes \<Rightarrow> 'v::len storage \<Rightarrow> (nat \<times> 'v entry_wrapper) option" where
  "storage_find k s = List.find (\<lambda>(n, w). w_key w = k) s"

text \<open>Where the new element (and, after a rehash, every other one) shows up in the iteration order
  is up to the hashing: \<open>hash_rank\<close>.\<close>

definition storage_place ::
  "('v::len, 'x) protocol_scheme \<Rightarrow> nat \<Rightarrow> 'v entry_wrapper \<Rightarrow> 'v storage \<Rightarrow> 'v storage" where
  "storage_place E n w s =
     (let s' = (n, w) # s; ks = map (w_key \<circ> snd) s'
      in sort_key (\<lambda>(_, x). hash_rank E ks (w_key x)) s')"

definition storage_emplace ::
  "('v::len, 'x) protocol_scheme \<Rightarrow> nat \<Rightarrow> 'v entry_wrapper \<Rightarrow> 'v storage \<Rightarrow> 'v storage \<times> bool"
where
  "storage_emplace E n w s =
     (case storage_find (w_key w) s of
        Some _ \<Rightarrow> (s, False)
      | None \<Rightarrow> (storage_place E n w s, True))"

definition storage_erase :: "nat \<Rightarrow> 'v::len storage \<Rightarrow> 'v storage" where
  "storage_erase n s = filter (\<lambda>(m, _). m \<noteq> n) s"

definition storage_modify ::
  "nat \<Rightarrow> ('v::len entry_wrapper \<Rightarrow> 'v entry_wrapper) \<Rightarrow> 'v storage \<Rightarrow> 'v storage" where
  "storage_modify n f s = map (\<lambda>(m, w). (m, if m = n then f w else w)) s"

definition storage_node :: "nat \<Rightarrow> 'v::len storage \<Rightarrow> 'v entry_wrapper option" where
  "storage_node n s = map_of s n"

text \<open>The container's invariant: one element per key (the index is unique), one per node.\<close>

definition storage_ok :: "'v::len storage \<Rightarrow> bool" where
  "storage_ok s \<longleftrightarrow> distinct (map fst s) \<and> distinct (map (w_key \<circ> snd) s)"

lemma storage_ok_Nil [simp]: "storage_ok []"
  by (simp add: storage_ok_def)

lemma storage_ok_mset:
  "mset s = mset t \<Longrightarrow> storage_ok s \<longleftrightarrow> storage_ok t"
  unfolding storage_ok_def by (metis mset_map mset_eq_imp_distinct_iff)

lemma storage_ok_Cons:
  "storage_ok ((n, w) # s) \<longleftrightarrow>
     storage_ok s \<and> n \<notin> fst ` set s \<and> w_key w \<notin> (w_key \<circ> snd) ` set s"
  by (auto simp: storage_ok_def)

lemma storage_find_SomeD:
  "storage_find k s = Some (n, w) \<Longrightarrow> (n, w) \<in> set s \<and> w_key w = k"
  unfolding storage_find_def by (auto simp: find_Some_iff) (metis nth_mem)

lemma storage_find_None_iff: "storage_find k s = None \<longleftrightarrow> k \<notin> (w_key \<circ> snd) ` set s"
  unfolding storage_find_def by (force simp: find_None_iff)

lemma storage_node_unique:
  "storage_ok s \<Longrightarrow> (n, e) \<in> set s \<Longrightarrow> (n, e') \<in> set s \<Longrightarrow> e = e'"
  unfolding storage_ok_def by (metis eq_key_imp_eq_value)

lemma storage_key_unique:
  "storage_ok s \<Longrightarrow> (n, e) \<in> set s \<Longrightarrow> (m, e') \<in> set s \<Longrightarrow> w_key e = w_key e' \<Longrightarrow>
     n = m \<and> e = e'"
  unfolding storage_ok_def distinct_map comp_def by (metis inj_on_def prod.inject snd_conv)

lemma storage_find_eq_Some:
  assumes "storage_ok s"
  shows "storage_find k s = Some (n, w) \<longleftrightarrow> (n, w) \<in> set s \<and> w_key w = k"
proof
  assume *: "(n, w) \<in> set s \<and> w_key w = k"
  then obtain m x where f: "storage_find k s = Some (m, x)"
    using storage_find_None_iff [of k s] by (cases "storage_find k s") force+
  with * storage_find_SomeD [OF f] storage_key_unique [OF assms, of n w m x]
  show "storage_find k s = Some (n, w)" by auto
qed (rule storage_find_SomeD)

lemma storage_node_eq_Some:
  "storage_ok s \<Longrightarrow> storage_node n s = Some w \<longleftrightarrow> (n, w) \<in> set s"
  by (auto simp: storage_node_def storage_ok_def)

lemma mset_storage_place [simp]: "mset (storage_place E n w s) = add_mset (n, w) (mset s)"
  by (simp add: storage_place_def Let_def del: sort_key_simps)

lemma set_storage_place [simp]: "set (storage_place E n w s) = insert (n, w) (set s)"
  by (metis mset_storage_place set_mset_add_mset_insert set_mset_mset)

lemma fst_storage_emplace:
  "fst (storage_emplace E n w s) =
     (if storage_find (w_key w) s = None then storage_place E n w s else s)"
  by (simp add: storage_emplace_def split: option.split)

text \<open>The range-based \<open>for (auto &item : index)\<close> that updates every element in place.\<close>

definition storage_for_each ::
  "('v::len entry_wrapper \<Rightarrow> 'v entry_wrapper) \<Rightarrow> 'v storage \<Rightarrow> 'v storage" where
  "storage_for_each f s = map (\<lambda>(n, w). (n, f w)) s"

section \<open>The interface the services use\<close>

text \<open>
  What a unique hashed index promises: \<open>find\<close> returns the one element with the key, \<open>emplace\<close>
  adds an element exactly when its key is new, \<open>erase\<close> and \<open>modify\<close> act on one node, and a
  loop over the elements acts on all of them. The lemmas below are all that the services need.
\<close>

locale keyed_store =
  fixes find :: "'k \<Rightarrow> 's \<Rightarrow> ('n \<times> 'e) option"
    and emplace :: "'n \<Rightarrow> 'e \<Rightarrow> 's \<Rightarrow> 's \<times> bool"
    and erase :: "'n \<Rightarrow> 's \<Rightarrow> 's"
    and modify :: "'n \<Rightarrow> ('e \<Rightarrow> 'e) \<Rightarrow> 's \<Rightarrow> 's"
    and for_each :: "('e \<Rightarrow> 'e) \<Rightarrow> 's \<Rightarrow> 's"
    and elems :: "'s \<Rightarrow> ('n \<times> 'e) set"
    and key :: "'e \<Rightarrow> 'k"
    and ok :: "'s \<Rightarrow> bool"
  assumes find_iff: "ok s \<Longrightarrow> find k s = Some (n, e) \<longleftrightarrow> (n, e) \<in> elems s \<and> key e = k"
    and node_unique: "ok s \<Longrightarrow> (n, e) \<in> elems s \<Longrightarrow> (n, e') \<in> elems s \<Longrightarrow> e = e'"
    and emplace_new: "ok s \<Longrightarrow> find (key e) s = None \<Longrightarrow> n \<notin> fst ` elems s \<Longrightarrow>
      ok (fst (emplace n e s)) \<and> snd (emplace n e s) \<and>
      elems (fst (emplace n e s)) = insert (n, e) (elems s)"
    and emplace_dup: "find (key e) s \<noteq> None \<Longrightarrow> emplace n e s = (s, False)"
    and erase_elems: "ok s \<Longrightarrow>
      ok (erase n s) \<and> elems (erase n s) = {x \<in> elems s. fst x \<noteq> n}"
    and modify_elems: "ok s \<Longrightarrow> (\<And>e. key (f e) = key e) \<Longrightarrow>
      ok (modify n f s) \<and> (\<forall>m x. (m, x) \<in> elems (modify n f s) \<longleftrightarrow>
        (\<exists>e. (m, e) \<in> elems s \<and> x = (if m = n then f e else e)))"
    and for_each_elems: "ok s \<Longrightarrow> (\<And>e. key (f e) = key e) \<Longrightarrow>
      ok (for_each f s) \<and> (\<forall>m x. (m, x) \<in> elems (for_each f s) \<longleftrightarrow>
        (\<exists>e. (m, e) \<in> elems s \<and> x = f e))"
begin

lemma find_None_iff: "ok s \<Longrightarrow> find k s = None \<longleftrightarrow> (\<forall>n e. (n, e) \<in> elems s \<longrightarrow> key e \<noteq> k)"
  using find_iff [of s k] by (metis not_None_eq surj_pair)

lemma find_eqI:
  assumes "ok s" "ok t"
    and "\<And>n e. key e = k \<Longrightarrow> (n, e) \<in> elems s \<longleftrightarrow> (n, e) \<in> elems t"
  shows "find k s = find k t"
proof -
  have "find k s = Some x \<longleftrightarrow> find k t = Some x" for x
    using assms find_iff [OF assms(1), of k] find_iff [OF assms(2), of k] by (cases x) auto
  then show ?thesis by (metis not_None_eq)
qed

lemma find_emplace:
  assumes "ok s" "find (key e) s = None" "n \<notin> fst ` elems s"
  shows "find k (fst (emplace n e s)) = (if k = key e then Some (n, e) else find k s)"
proof -
  note new = emplace_new [OF assms]
  show ?thesis
    using new find_iff [of "fst (emplace n e s)" k n e]
    by (auto intro!: find_eqI [OF _ assms(1)])
qed

lemma find_erase:
  assumes "ok s" "find k s = Some (n, e)"
  shows "find k' (erase n s) = (if k' = k then None else find k' s)"
proof -
  have e: "(n, e) \<in> elems s" "key e = k" using assms find_iff by auto
  note er = erase_elems [OF assms(1), of n]
  show ?thesis
  proof (cases "k' = k")
    case True
    have "key x \<noteq> k" if "(m, x) \<in> elems s" "m \<noteq> n" for m x
      using that find_iff [OF assms(1), of k m x] assms(2) by auto
    with True er show ?thesis by (auto simp: find_None_iff)
  next
    case False
    then have "find k' (erase n s) = find k' s"
      using er node_unique [OF assms(1) e(1)] e(2)
      by (intro find_eqI) (use assms(1) in auto)
    with False show ?thesis by simp
  qed
qed

lemma find_modify:
  assumes "ok s" "find k s = Some (n, e)" "\<And>e. key (f e) = key e"
  shows "find k' (modify n f s) = (if k' = k then Some (n, f e) else find k' s)"
proof -
  have e: "(n, e) \<in> elems s" "key e = k" using assms(1,2) find_iff by auto
  note mod = modify_elems [OF assms(1,3), of n]
  have el: "(m, x) \<in> elems (modify n f s) \<longleftrightarrow>
      (if m = n then x = f e else (m, x) \<in> elems s)" for m x
  proof (cases "m = n")
    case True
    have "(n, x) \<in> elems (modify n f s) \<longleftrightarrow> (\<exists>e'. (n, e') \<in> elems s \<and> x = f e')"
      using mod by simp
    also have "\<dots> \<longleftrightarrow> x = f e"
      using node_unique [OF assms(1) e(1)] e(1) by blast
    finally show ?thesis using True by simp
  qed (use mod in simp)
  show ?thesis
  proof (cases "k' = k")
    case True
    have "(n, f e) \<in> elems (modify n f s)" by (simp add: el)
    then show ?thesis using True mod assms(3) e(2) by (simp add: find_iff)
  next
    case False
    have "find k' (modify n f s) = find k' s"
      using mod assms(1)
    proof (intro find_eqI)
      fix m x
      assume "key x = k'"
      then show "(m, x) \<in> elems (modify n f s) \<longleftrightarrow> (m, x) \<in> elems s"
        using False e(2) assms(3) [of e] node_unique [OF assms(1) e(1), of x]
        by (cases "m = n") (auto simp only: el if_True if_False)
    qed auto
    with False show ?thesis by simp
  qed
qed

lemma find_for_each:
  assumes "ok s" "\<And>e. key (f e) = key e"
  shows "find k (for_each f s) = map_option (map_prod id f) (find k s)"
proof (cases "find k s")
  case None
  then have "key e \<noteq> k" if "(n, e) \<in> elems s" for n e
    using that find_None_iff [OF assms(1), of k] by blast
  then have "find k (for_each f s) = None"
    using for_each_elems [OF assms(1,2)] assms(2) by (simp add: find_None_iff) metis
  with None show ?thesis by simp
next
  case (Some x)
  then obtain n e where x: "x = (n, e)" "(n, e) \<in> elems s" "key e = k"
    using find_iff [OF assms(1)] by (cases x) auto
  then have "(n, f e) \<in> elems (for_each f s)"
    using for_each_elems [OF assms(1,2)] by auto
  then have "find k (for_each f s) = Some (n, f e)"
    using for_each_elems [OF assms(1,2)] assms(2) x(3) find_iff by auto
  then show ?thesis by (simp add: Some x(1))
qed

end

lemma in_set_storage_modify:
  "(m, x) \<in> set (storage_modify n f s) \<longleftrightarrow>
     (\<exists>w. (m, w) \<in> set s \<and> x = (if m = n then f w else w))"
  by (induction s) (auto simp: storage_modify_def)

lemma in_set_storage_for_each:
  "(m, x) \<in> set (storage_for_each f s) \<longleftrightarrow> (\<exists>w. (m, w) \<in> set s \<and> x = f w)"
  by (induction s) (auto simp: storage_for_each_def)

lemma storage_modify_ok:
  assumes "storage_ok s" "\<And>w. w_key (f w) = w_key w"
  shows "storage_ok (storage_modify n f s)"
proof -
  have "map fst (storage_modify n f s) = map fst s"
    "map (w_key \<circ> snd) (storage_modify n f s) = map (w_key \<circ> snd) s"
    using assms(2) by (auto simp: storage_modify_def)
  with assms(1) show ?thesis by (simp add: storage_ok_def)
qed

lemma storage_for_each_ok:
  assumes "storage_ok s" "\<And>w. w_key (f w) = w_key w"
  shows "storage_ok (storage_for_each f s)"
proof -
  have "map fst (storage_for_each f s) = map fst s"
    "map (w_key \<circ> snd) (storage_for_each f s) = map (w_key \<circ> snd) s"
    using assms(2) by (auto simp: storage_for_each_def)
  with assms(1) show ?thesis by (simp add: storage_ok_def)
qed

lemma storage_erase_ok: "storage_ok s \<Longrightarrow> storage_ok (storage_erase n s)"
  by (simp add: storage_ok_def storage_erase_def distinct_map_filter_key)

lemma storage_emplace_ok:
  assumes "storage_ok s" "n \<notin> fst ` set s"
  shows "storage_ok (fst (storage_emplace E n w s))"
proof (cases "storage_find (w_key w) s = None")
  case True
  then have "storage_ok ((n, w) # s)"
    using assms by (simp add: storage_ok_Cons storage_find_None_iff)
  then show ?thesis
    using True storage_ok_mset [of "storage_place E n w s" "(n, w) # s"]
    by (simp add: fst_storage_emplace)
qed (use assms in \<open>auto simp: storage_emplace_def\<close>)

interpretation st: keyed_store storage_find "storage_emplace E" storage_erase storage_modify
  storage_for_each set w_key storage_ok
  for E :: "('v::len, 'x) protocol_scheme"
proof (unfold_locales, goal_cases)
  case (1 s k n e)
  then show ?case by (rule storage_find_eq_Some)
next
  case (2 s n e e')
  then show ?case by (rule storage_node_unique)
next
  case (3 s e n)
  then show ?case
    using storage_emplace_ok [of s n E e]
    by (auto simp: storage_emplace_def)
next
  case (4 e s n)
  then show ?case by (auto simp: storage_emplace_def)
next
  case (5 s n)
  then show ?case by (simp add: storage_erase_ok) (auto simp: storage_erase_def)
next
  case (6 s f n)
  then show ?case by (auto simp only: storage_modify_ok in_set_storage_modify)
next
  case (7 s f)
  then show ?case by (auto simp only: storage_for_each_ok in_set_storage_for_each)
qed

end
