(* ===== verification/Subscription.thy ===== *)
theory Subscription
  imports Metrics
begin

text \<open>
  \<open>subscription.hpp\<close> and \<open>subscriptions_service\<close>: the container of subscriptions, a
  \<open>boost::multi_index\<close> with two ordered, non-unique indices. The model keeps the elements in
  insertion order; an ordered index puts a new element behind the equal ones, so each index is the
  stable sort of that list by its key. A \<open>uuid\<close> compares as a big-endian number, a channel name
  byte by byte.
\<close>

record subscription =
  sub_connection_id :: uuid
  sub_channel :: bytes
  sub_subscribed_at :: u64
  sub_metrics :: subscription_metrics

definition make_subscription :: "u64 \<Rightarrow> uuid \<Rightarrow> bytes \<Rightarrow> subscription" where
  "make_subscription now connection_id channel =
     \<lparr>sub_connection_id = connection_id, sub_channel = channel, sub_subscribed_at = now,
      sub_metrics = new_subscription_metrics\<rparr>"

lemma make_subscription_fields [simp]:
  "sub_connection_id (make_subscription now i c) = i"
  "sub_channel (make_subscription now i c) = c"
  by (simp_all add: make_subscription_def)

type_synonym subscription_container = "subscription list"

definition by_connection_id :: "subscription_container \<Rightarrow> subscription list" where
  "by_connection_id subs = sort_key sub_connection_id subs"

definition by_channel_name :: "subscription_container \<Rightarrow> subscription list" where
  "by_channel_name subs = sort_key sub_channel subs"

text \<open>\<open>equal_range\<close> on each index.\<close>

definition range_by_id :: "uuid \<Rightarrow> subscription_container \<Rightarrow> subscription list" where
  "range_by_id i subs = filter (\<lambda>s. sub_connection_id s = i) (by_connection_id subs)"

definition range_by_channel :: "bytes \<Rightarrow> subscription_container \<Rightarrow> subscription list" where
  "range_by_channel c subs = filter (\<lambda>s. sub_channel s = c) (by_channel_name subs)"

text \<open>Inserting into a non-unique index always succeeds.\<close>

definition insert_subscription ::
  "subscription \<Rightarrow> subscription_container \<Rightarrow> subscription_container \<times> bool" where
  "insert_subscription s subs = (subs @ [s], True)"

text \<open>
  \<open>is_subscribed\<close>: from the first subscription of \<open>id\<close> (\<open>find\<close>, or \<open>end()\<close> when there is
  none) the loop goes on to the end of the whole index.
\<close>

definition is_subscribed :: "uuid \<Rightarrow> bytes \<Rightarrow> subscription_container \<Rightarrow> bool" where
  "is_subscribed i channel subs =
     (let it = dropWhile (\<lambda>s. sub_connection_id s \<noteq> i) (by_connection_id subs)
      in \<exists>s \<in> set it. sub_channel s = channel)"

text \<open>The erasures of \<open>unsubscribe_command\<close> and of \<open>state::leave\<close>.\<close>

definition erase_subscriptions :: "uuid \<Rightarrow> bytes \<Rightarrow> subscription_container \<Rightarrow> subscription_container"
where
  "erase_subscriptions i c subs =
     filter (\<lambda>s. \<not> (sub_connection_id s = i \<and> sub_channel s = c)) subs"

definition erase_connection_subscriptions :: "uuid \<Rightarrow> subscription_container \<Rightarrow> subscription_container"
where
  "erase_connection_subscriptions i subs = filter (\<lambda>s. sub_connection_id s \<noteq> i) subs"

lemma set_by_connection_id [simp]: "set (by_connection_id subs) = set subs"
  by (simp add: by_connection_id_def)

lemma set_by_channel_name [simp]: "set (by_channel_name subs) = set subs"
  by (simp add: by_channel_name_def)

lemma set_range_by_id [simp]:
  "set (range_by_id i subs) = {s \<in> set subs. sub_connection_id s = i}"
  by (simp add: range_by_id_def)

lemma set_range_by_channel [simp]:
  "set (range_by_channel c subs) = {s \<in> set subs. sub_channel s = c}"
  by (simp add: range_by_channel_def)

text \<open>The members of a range keep the order in which they subscribed.\<close>

lemma range_by_channel_eq: "range_by_channel c subs = filter (\<lambda>s. sub_channel s = c) subs"
  by (simp add: range_by_channel_def by_channel_name_def sort_key_stable)

lemma dropWhile_sorted_key:
  assumes "sorted (map f xs)"
  shows "set (dropWhile (\<lambda>x. f x \<noteq> k) xs) =
    (if k \<in> f ` set xs then {x \<in> set xs. k \<le> f x} else {})"
  using assms
proof (induction xs)
  case Nil
  then show ?case by simp
next
  case (Cons x xs)
  then show ?case by (cases "f x = k") (auto simp: order.order_iff_strict)
qed

text \<open>What \<open>is_subscribed\<close> decides: the connection has some subscription, and some
  connection whose id is not smaller is subscribed to the channel. It is weaker than "this connection
  is subscribed to this channel", because the loop runs past the connection's own range.\<close>

theorem is_subscribed_spec:
  "is_subscribed i c subs \<longleftrightarrow>
     (\<exists>s \<in> set subs. sub_connection_id s = i) \<and>
     (\<exists>s \<in> set subs. i \<le> sub_connection_id s \<and> sub_channel s = c)"
proof -
  have "sorted (map sub_connection_id (by_connection_id subs))"
    by (simp add: by_connection_id_def)
  from dropWhile_sorted_key [OF this, of i] show ?thesis
    by (auto simp: is_subscribed_def Let_def image_iff)
qed

lemma is_subscribed_own:
  "s \<in> set subs \<Longrightarrow> sub_connection_id s = i \<Longrightarrow> sub_channel s = c \<Longrightarrow> is_subscribed i c subs"
  by (auto simp: is_subscribed_spec)

end
