(* ===== verification/Message.thy ===== *)
theory Message
  imports Storage
begin

text \<open>
  \<open>message.hpp\<close> and the way every command builds its answer: a \<open>write_buffer_\<close> of bytes and a
  \<open>buffers_\<close> list of \<open>boost::asio::const_buffer\<close>, each a pointer and a length. The pointers go
  to the two static status bytes, into the message's own write buffer, or straight into an element
  of the storage (\<open>&entry->entry_.type_\<close>, \<open>&entry->entry_.ttl_type_\<close>, \<open>key_.data()\<close>). The
  bytes behind them are read only when the socket writes, so the model keeps the pointers and reads
  them with \<open>gather\<close>.

  \<open>write_buffer.resize(n)\<close> may move the vector; the generation number makes every pointer taken
  before a later \<open>resize\<close> invalid.
\<close>

datatype seg =
    Static byte
  | In_buffer nat nat nat  \<comment> \<open>generation, offset, length\<close>
  | Entry_type nat         \<comment> \<open>the node of the entry\<close>
  | Entry_ttl_type nat
  | Entry_key nat

record message =
  write_buffer :: bytes
  generation :: nat
  batch :: "seg list"

definition new_message :: message where
  "new_message = \<lparr>write_buffer = [], generation = 0, batch = []\<rparr>"

definition success_response :: seg where "success_response = Static 1"
definition failed_response :: seg where "failed_response = Static 0"

section \<open>Reading a message\<close>

definition seg_bytes ::
  "('v::len, 'x) protocol_scheme \<Rightarrow> 'v storage \<Rightarrow> message \<Rightarrow> seg \<Rightarrow> bytes option" where
  "seg_bytes E s m sg = (case sg of
       Static b \<Rightarrow> Some [b]
     | In_buffer g off n \<Rightarrow>
         if g = generation m \<and> off + n \<le> length (write_buffer m)
         then Some (take n (drop off (write_buffer m))) else None
     | Entry_type n \<Rightarrow> map_option (\<lambda>w. [entry_code E (e_type (w_entry w))]) (storage_node n s)
     | Entry_ttl_type n \<Rightarrow> map_option (\<lambda>w. [ttl_code E (e_ttl_type (w_entry w))]) (storage_node n s)
     | Entry_key n \<Rightarrow> map_option w_key (storage_node n s))"

definition opt_append :: "bytes option \<Rightarrow> bytes option \<Rightarrow> bytes option" where
  "opt_append x y = (case x of None \<Rightarrow> None | Some b \<Rightarrow> map_option ((@) b) y)"

fun concat_options :: "bytes option list \<Rightarrow> bytes option" where
  "concat_options [] = Some []"
| "concat_options (x # xs) = opt_append x (concat_options xs)"

text \<open>The bytes that \<open>boost::asio::async_write\<close> sends; \<open>None\<close> when a pointer dangles.\<close>

definition gather :: "('v::len, 'x) protocol_scheme \<Rightarrow> 'v storage \<Rightarrow> message \<Rightarrow> bytes option" where
  "gather E s m = concat_options (map (seg_bytes E s m) (batch m))"

lemma opt_append_simps [simp]:
  "opt_append None y = None"
  "opt_append x None = None"
  "opt_append (Some a) (Some b) = Some (a @ b)"
  "opt_append (Some []) y = y"
  "opt_append x (Some []) = x"
  by (cases x; cases y; simp add: opt_append_def)+

lemma opt_append_assoc: "opt_append (opt_append x y) z = opt_append x (opt_append y z)"
  by (cases x; cases y; cases z) simp_all

lemma opt_append_Some_iff:
  "opt_append x y = Some c \<longleftrightarrow> (\<exists>a b. x = Some a \<and> y = Some b \<and> c = a @ b)"
  by (cases x; cases y) auto

lemma concat_options_append:
  "concat_options (xs @ ys) = opt_append (concat_options xs) (concat_options ys)"
  by (induction xs) (simp_all add: opt_append_assoc)

lemma concat_options_Some [simp]: "concat_options (map (\<lambda>x. Some (f x)) bs) = Some (concat (map f bs))"
  by (induction bs) auto

section \<open>Writing a message\<close>

text \<open>
  The commands write at a running \<open>_offset\<close>. Two idioms cover all of them:
  \<open>Emit parts\<close> is a \<open>std::memcpy\<close> of each part in turn at the offset, the offset advanced past
  it, and then one \<open>batch.emplace_back\<close> of all the parts together (a single part nearly always);
  \<open>Ref sg\<close> is \<open>batch.emplace_back\<close> of a pointer outside the write buffer.
\<close>

datatype write_op = Emit "bytes list" | Ref seg

definition resize :: "nat \<Rightarrow> message \<Rightarrow> message" where
  "resize n m = m\<lparr>write_buffer := take n (write_buffer m) @
       replicate (n - length (write_buffer m)) 0,
     generation := Suc (generation m)\<rparr>"

definition emplace_back :: "seg \<Rightarrow> message \<Rightarrow> message" where
  "emplace_back sg m = m\<lparr>batch := batch m @ [sg]\<rparr>"

fun copy_parts :: "bytes list \<Rightarrow> nat \<Rightarrow> bytes \<Rightarrow> (nat \<times> bytes) res" where
  "copy_parts [] off buf = Inr (off, buf)"
| "copy_parts (p # ps) off buf =
     bind_res (poke off p buf) (copy_parts ps (off + length p))"

fun write_step :: "write_op \<Rightarrow> nat \<times> message \<Rightarrow> (nat \<times> message) res" where
  "write_step (Ref sg) (off, m) = Inr (off, emplace_back sg m)"
| "write_step (Emit ps) (off, m) =
     bind_res (copy_parts ps off (write_buffer m)) (\<lambda>(off', buf).
       Inr (off', emplace_back (In_buffer (generation m) off (off' - off)) (m\<lparr>write_buffer := buf\<rparr>)))"

definition write_all :: "write_op list \<Rightarrow> nat \<times> message \<Rightarrow> (nat \<times> message) res" where
  "write_all = fold_res write_step"

fun op_size :: "write_op \<Rightarrow> nat" where
  "op_size (Emit ps) = length (concat ps)"
| "op_size (Ref sg) = 0"

definition ops_size :: "write_op list \<Rightarrow> nat" where
  "ops_size ops = sum_list (map op_size ops)"

text \<open>What the operations put on the wire, read directly from the operations.\<close>

fun op_bytes :: "('v::len, 'x) protocol_scheme \<Rightarrow> 'v storage \<Rightarrow> write_op \<Rightarrow> bytes option" where
  "op_bytes E s (Emit ps) = Some (concat ps)"
| "op_bytes E s (Ref sg) = seg_bytes E s new_message sg"

definition ops_bytes :: "('v::len, 'x) protocol_scheme \<Rightarrow> 'v storage \<Rightarrow> write_op list \<Rightarrow> bytes option"
where
  "ops_bytes E s ops = concat_options (map (op_bytes E s) ops)"

lemma ops_size_simps [simp]:
  "ops_size [] = 0"
  "ops_size (op # ops) = op_size op + ops_size ops"
  "ops_size (xs @ ys) = ops_size xs + ops_size ys"
  by (simp_all add: ops_size_def)

lemma ops_size_concat [simp]: "ops_size (concat xss) = sum_list (map ops_size xss)"
  by (induction xss) simp_all

lemma ops_bytes_append:
  "ops_bytes E s (xs @ ys) =
     opt_append (ops_bytes E s xs) (ops_bytes E s ys)"
  by (simp add: ops_bytes_def concat_options_append)

lemma ops_bytes_simps [simp]:
  "ops_bytes E s [] = Some []"
  "ops_bytes E s (op # ops) = opt_append (op_bytes E s op) (ops_bytes E s ops)"
  by (simp_all add: ops_bytes_def)

lemma ops_bytes_concat:
  "ops_bytes E s (concat xss) = concat_options (map (ops_bytes E s) xss)"
  by (induction xss) (simp_all add: ops_bytes_append)

lemma write_all_simps [simp]:
  "write_all [] om = Inr om"
  "write_all (op # ops) om = bind_res (write_step op om) (write_all ops)"
  by (simp_all add: write_all_def)

section \<open>Every response of the server is written in bounds and reads back as intended\<close>

text \<open>
  The shape of a message while a command fills it: the first \<open>off\<close> bytes of the write buffer are
  written, every pointer into the buffer is of the current generation and below \<open>off\<close>.
\<close>

definition seg_filled :: "nat \<Rightarrow> message \<Rightarrow> seg \<Rightarrow> bool" where
  "seg_filled off m sg = (case sg of
     In_buffer g k n \<Rightarrow> g = generation m \<and> k + n \<le> off | _ \<Rightarrow> True)"

definition filled :: "nat \<Rightarrow> message \<Rightarrow> bool" where
  "filled off m \<longleftrightarrow> off \<le> length (write_buffer m) \<and> list_all (seg_filled off m) (batch m)"

definition outside_buffer :: "seg \<Rightarrow> bool" where
  "outside_buffer sg = (case sg of In_buffer _ _ _ \<Rightarrow> False | _ \<Rightarrow> True)"

lemma outside_buffer_simps [simp]:
  "outside_buffer (Static b)" "\<not> outside_buffer (In_buffer g k n)" "outside_buffer (Entry_type n)"
  "outside_buffer (Entry_ttl_type n)" "outside_buffer (Entry_key n)"
  by (simp_all add: outside_buffer_def)

fun op_ok :: "write_op \<Rightarrow> bool" where
  "op_ok (Emit ps) = True"
| "op_ok (Ref sg) = outside_buffer sg"

lemma copy_parts_ok:
  assumes "off + length (concat ps) \<le> length buf"
  shows "copy_parts ps off buf =
    Inr (off + length (concat ps),
         take off buf @ concat ps @ drop (off + length (concat ps)) buf)"
  using assms
proof (induction ps arbitrary: off buf)
  case Nil
  then show ?case by simp
next
  case (Cons p ps)
  let ?buf = "take off buf @ p @ drop (off + length p) buf"
  have "poke off p buf = Inr ?buf" using Cons.prems by (simp add: poke_def)
  moreover have "copy_parts ps (off + length p) ?buf =
      Inr (off + length p + length (concat ps),
        take (off + length p) ?buf @ concat ps @ drop (off + length p + length (concat ps)) ?buf)"
    using Cons.prems by (intro Cons.IH) simp
  moreover have "take (off + length p) ?buf = take off buf @ p"
    "drop (off + length p + length (concat ps)) ?buf = drop (off + length p + length (concat ps)) buf"
    using Cons.prems by (simp_all add: min_absorb2 add_ac)
  ultimately show ?case by (simp add: add.assoc)
qed

lemma seg_bytes_same:
  assumes "seg_filled off m sg" "off \<le> length (write_buffer m)"
    "take off (write_buffer m') = take off (write_buffer m)" "generation m' = generation m"
    "off \<le> length (write_buffer m')"
  shows "seg_bytes E s m' sg = seg_bytes E s m sg"
proof (cases sg)
  case (In_buffer g k n)
  then have "k + n \<le> off" using assms(1) by (simp add: seg_filled_def)
  then have "take n (drop k b) = take n (drop k (take off b))" for b :: bytes
    by (simp add: drop_take min_absorb1)
  then have "take n (drop k (write_buffer m')) = take n (drop k (write_buffer m))"
    using assms(3) by metis
  then show ?thesis
    using In_buffer assms \<open>k + n \<le> off\<close> by (simp add: seg_bytes_def)
qed (simp_all add: seg_bytes_def)

lemma seg_bytes_outside:
  "outside_buffer sg \<Longrightarrow> seg_bytes E s m sg = seg_bytes E s m' sg"
  by (cases sg) (simp_all add: outside_buffer_def seg_bytes_def)

lemma gather_same:
  assumes "filled off m" "take off (write_buffer m') = take off (write_buffer m)"
    "generation m' = generation m" "off \<le> length (write_buffer m')" "batch m' = batch m"
  shows "gather E s m' = gather E s m"
proof -
  have "map (seg_bytes E s m') (batch m) = map (seg_bytes E s m) (batch m)"
    using assms by (auto simp: filled_def list_all_iff intro!: seg_bytes_same)
  then show ?thesis unfolding gather_def assms(5) by (rule arg_cong)
qed

lemma emplace_back_fields [simp]:
  "write_buffer (emplace_back sg m) = write_buffer m"
  "generation (emplace_back sg m) = generation m"
  "batch (emplace_back sg m) = batch m @ [sg]"
  by (simp_all add: emplace_back_def)

lemma gather_emplace_back:
  "gather E s (emplace_back sg m) = opt_append (gather E s m) (seg_bytes E s m sg)"
proof -
  have "seg_bytes E s (emplace_back sg m) = seg_bytes E s m"
    by (rule ext) (simp add: seg_bytes_def emplace_back_def split: seg.split)
  then show ?thesis
    by (simp add: gather_def concat_options_append emplace_back_def)
qed

lemma filled_mono: "filled off m \<Longrightarrow> off \<le> off' \<Longrightarrow> off' \<le> length (write_buffer m) \<Longrightarrow> filled off' m"
  by (auto simp: filled_def list_all_iff seg_filled_def split: seg.splits)

lemma filled_emplace_back:
  "filled off m \<Longrightarrow> seg_filled off m sg \<Longrightarrow> filled off (emplace_back sg m)"
  by (auto simp: filled_def list_all_iff seg_filled_def emplace_back_def split: seg.splits)

text \<open>What running operations leaves alone and what it adds.\<close>

definition wrote ::
  "('v::len, 'x) protocol_scheme \<Rightarrow> 'v storage \<Rightarrow> write_op list \<Rightarrow> nat \<Rightarrow> message \<Rightarrow> message \<Rightarrow> bool"
where
  "wrote E s ops off m m' \<longleftrightarrow>
     filled (off + ops_size ops) m' \<and> generation m' = generation m \<and>
     length (write_buffer m') = length (write_buffer m) \<and>
     gather E s m' = opt_append (gather E s m) (ops_bytes E s ops)"

lemma write_step_wrote:
  assumes "filled off m" "off + op_size op \<le> length (write_buffer m)" "op_ok op"
  shows "\<exists>m'. write_step op (off, m) = Inr (off + op_size op, m') \<and> wrote E s [op] off m m'"
proof (cases op)
  case (Emit ps)
  let ?n = "length (concat ps)"
  let ?sg = "In_buffer (generation m) off ?n"
  define m1 where
    "m1 = m\<lparr>write_buffer := take off (write_buffer m) @ concat ps @ drop (off + ?n) (write_buffer m)\<rparr>"
  have room: "off + ?n \<le> length (write_buffer m)" using assms(2) Emit by simp
  then have m1: "generation m1 = generation m" "batch m1 = batch m"
    "length (write_buffer m1) = length (write_buffer m)"
    "take off (write_buffer m1) = take off (write_buffer m)"
    "take ?n (drop off (write_buffer m1)) = concat ps"
    by (simp_all add: m1_def)
  have step: "write_step op (off, m) = Inr (off + ?n, emplace_back ?sg m1)"
    using Emit room by (simp add: copy_parts_ok m1_def)
  have same: "gather E s m1 = gather E s m"
    using room m1 by (intro gather_same [OF assms(1)]) simp_all
  have "filled off m1"
    using assms(1) m1 by (auto simp: filled_def list_all_iff seg_filled_def split: seg.splits)
  then have "filled (off + ?n) m1" using room m1 by (auto intro: filled_mono)
  then have "filled (off + ?n) (emplace_back ?sg m1)"
    by (intro filled_emplace_back) (simp_all add: seg_filled_def m1)
  moreover have "seg_bytes E s m1 ?sg = Some (concat ps)"
    using room m1 by (simp add: seg_bytes_def)
  ultimately have "wrote E s [op] off m (emplace_back ?sg m1)"
    using Emit m1 by (simp add: wrote_def gather_emplace_back same)
  with step show ?thesis using Emit by auto
next
  case (Ref sg)
  then have out: "outside_buffer sg" using assms(3) by simp
  then have "seg_filled off m sg" by (simp add: outside_buffer_def seg_filled_def split: seg.splits)
  with assms(1) have "filled off (emplace_back sg m)" by (rule filled_emplace_back)
  with Ref have "wrote E s [op] off m (emplace_back sg m)"
    using seg_bytes_outside [OF out, of E s m new_message]
    by (simp add: wrote_def gather_emplace_back)
  with Ref show ?thesis by simp
qed

lemma write_all_wrote:
  assumes "filled off m" "off + ops_size ops \<le> length (write_buffer m)" "list_all op_ok ops"
  shows "\<exists>m'. write_all ops (off, m) = Inr (off + ops_size ops, m') \<and> wrote E s ops off m m'"
  using assms
proof (induction ops arbitrary: off m)
  case Nil
  then show ?case by (simp add: wrote_def)
next
  case (Cons op ops)
  from Cons.prems obtain m1 where m1: "write_step op (off, m) = Inr (off + op_size op, m1)"
    "wrote E s [op] off m m1"
    using write_step_wrote [of off m op E s] by auto
  then have "filled (off + op_size op) m1" "length (write_buffer m1) = length (write_buffer m)"
    by (simp_all add: wrote_def)
  then obtain m2 where m2:
    "write_all ops (off + op_size op, m1) = Inr (off + op_size op + ops_size ops, m2)"
    "wrote E s ops (off + op_size op) m1 m2"
    using Cons.IH [of "off + op_size op" m1] Cons.prems by (auto simp: add.assoc)
  with m1 show ?case
    by (auto simp: wrote_def opt_append_assoc add.assoc)
qed

text \<open>
  A command's answer: the buffer is grown once by \<open>n\<close> bytes, then the operations run from the old
  end. A message that holds no pointer into its own buffer yet can be grown safely.
\<close>

definition respond :: "nat \<Rightarrow> write_op list \<Rightarrow> message \<Rightarrow> message res" where
  "respond n ops m =
     (let off = length (write_buffer m)
      in bind_res (write_all ops (off, resize (off + n) m)) (\<lambda>(_, m'). Inr m'))"

definition unwritten :: "message \<Rightarrow> bool" where
  "unwritten m \<longleftrightarrow> list_all outside_buffer (batch m)"

lemma unwritten_new [simp]: "unwritten new_message"
  by (simp add: unwritten_def new_message_def)

lemma gather_new [simp]: "gather E s new_message = Some []"
  by (simp add: gather_def new_message_def)

lemma resize_filled:
  assumes "unwritten m"
  shows "filled (length (write_buffer m)) (resize (length (write_buffer m) + n) m)"
    "gather E s (resize k m) = gather E s m"
proof -
  show "filled (length (write_buffer m)) (resize (length (write_buffer m) + n) m)"
    using assms
    by (auto simp: filled_def unwritten_def list_all_iff resize_def outside_buffer_def seg_filled_def
      split: seg.splits)
  have "map (seg_bytes E s (resize k m)) (batch m) = map (seg_bytes E s m) (batch m)"
    using assms by (auto simp: unwritten_def list_all_iff intro: seg_bytes_outside)
  moreover have "batch (resize k m) = batch m" by (simp add: resize_def)
  ultimately show "gather E s (resize k m) = gather E s m"
    unfolding gather_def by (simp only:)
qed

lemma respond_ok:
  assumes "unwritten m" "ops_size ops \<le> n" "list_all op_ok ops"
  shows "\<exists>m'. respond n ops m = Inr m' \<and>
    gather E s m' = opt_append (gather E s m) (ops_bytes E s ops)"
proof -
  let ?off = "length (write_buffer m)"
  let ?m = "resize (?off + n) m"
  have "length (write_buffer ?m) = ?off + n" by (simp add: resize_def)
  then obtain m' where "write_all ops (?off, ?m) = Inr (?off + ops_size ops, m')"
    "wrote E s ops ?off ?m m'"
    using write_all_wrote [OF resize_filled(1) [OF assms(1)], of ops n E s] assms(2,3) by auto
  then show ?thesis
    by (simp add: respond_def wrote_def resize_filled(2) [OF assms(1)])
qed

end
