(* ===== verification/State.thy ===== *)
theory State
  imports Storage Subscription Message
begin

text \<open>
  \<open>state.hpp\<close> and the data of \<open>connection.hpp\<close>: what the server keeps in memory, and how
  connections enter and leave it. The four \<open>std::unordered_map\<close>s of connections are the four values
  of \<open>st_connections\<close>; the maps hold pointers to the connection objects, each object in one map only,
  so the model keeps the object itself under its id.

  The strand, the expiration timer and the mutex of the garbage collector are part of the state: the
  functions posted to the strand and not yet run (each is \<open>schedule_timer(proposed)\<close>), the deadline
  of the timer's pending wait, and whether \<open>mutex_\<close> is held. A handler is a function on
  the state; theory Threads interleaves the handlers of several threads between requests. A function given to
  \<open>boost::asio::dispatch\<close> waits in \<open>st_tasks\<close>, as one that is posted; it may run as soon as the request that
  gave it is done.
\<close>

section \<open>Connections\<close>

datatype connection_kind = Tcp_socket | Unix_socket
datatype connection_type = Client | Agent

record connection =
  c_id :: uuid
  c_connected_at :: u64
  c_kind :: connection_kind
  c_type :: connection_type
  c_metrics :: connection_metrics
  c_buffer :: bytes
  c_buffer_start :: nat
  c_buffer_end :: nat
  c_ip :: bytes
  c_port :: u16
  c_posted :: "message list"
  c_pending_writes :: "message list"
  c_writing :: "message option"
  c_reading :: bool
  c_open :: bool

text \<open>
  Four of the fields stand for what asio keeps: \<open>c_posted\<close>, the \<open>on_send\<close> calls that \<open>send\<close> has
  posted to the socket's executor; \<open>c_writing\<close>, the message whose buffers the outstanding
  \<open>async_write\<close> is sending; \<open>c_reading\<close>, whether an \<open>async_read_some\<close> is outstanding;
  \<open>c_open\<close>, whether the socket is open.
\<close>

definition max_length :: nat where "max_length = 8096"

definition make_connection ::
  "uuid \<Rightarrow> connection_kind \<Rightarrow> connection_type \<Rightarrow> u64 \<Rightarrow> bytes \<Rightarrow> u16 \<Rightarrow> connection" where
  "make_connection i kind type now ip port =
     \<lparr>c_id = i, c_connected_at = now, c_kind = kind, c_type = type,
      c_metrics = new_connection_metrics, c_buffer = replicate max_length 0,
      c_buffer_start = 0, c_buffer_end = 0, c_ip = ip, c_port = port,
      c_posted = [], c_pending_writes = [], c_writing = None, c_reading = False, c_open = True\<rparr>"

text \<open>\<open>send\<close> posts \<open>on_send\<close> with the message.\<close>

definition send :: "message \<Rightarrow> connection \<Rightarrow> connection" where
  "send m c = c\<lparr>c_posted := c_posted c @ [m]\<rparr>"

section \<open>The state\<close>

datatype connection_map = Tcp | Unix | Agent_tcp | Agent_unix

definition all_maps :: "connection_map list" where
  "all_maps = [Tcp, Unix, Agent_tcp, Agent_unix]"

type_synonym connections = "(uuid \<times> connection) list"

record (overloaded) 'v state =
  st_started_at :: u64
  st_storage :: "'v::len storage"
  st_next_node :: nat
  st_connections :: "connection_map \<Rightarrow> connections"
  st_mutex :: bool
  st_scheduled_key :: bytes
  st_subscriptions :: subscription_container
  st_commands :: "metric list"
  st_tasks :: "u64 list"
  st_timer :: "int option"

definition make_state :: "u64 \<Rightarrow> 'v::len state" where
  "make_state now =
     \<lparr>st_started_at = now, st_storage = [], st_next_node = 0, st_connections = (\<lambda>_. []),
      st_mutex = False, st_scheduled_key = [], st_subscriptions = [],
      st_commands = replicate 32 new_metric, st_tasks = [], st_timer = None\<rparr>"

text \<open>Which map a connection belongs to.\<close>

fun map_of_connection :: "connection_kind \<Rightarrow> connection_type \<Rightarrow> connection_map" where
  "map_of_connection Tcp_socket Client = Tcp"
| "map_of_connection Tcp_socket Agent = Agent_tcp"
| "map_of_connection Unix_socket Client = Unix"
| "map_of_connection Unix_socket Agent = Agent_unix"

definition home :: "connection \<Rightarrow> connection_map" where
  "home c = map_of_connection (c_kind c) (c_type c)"

definition ids :: "connections \<Rightarrow> uuid set" where
  "ids m = set (map fst m)"

text \<open>\<open>try_emplace\<close>, \<open>contains\<close>, \<open>find\<close> and an update through the stored pointer.\<close>

definition try_emplace ::
  "('v::len, 'x) protocol_scheme \<Rightarrow> uuid \<Rightarrow> connection \<Rightarrow> connections \<Rightarrow> connections" where
  "try_emplace E i c m =
     (if i \<in> fst ` set m then m
      else let m' = (i, c) # m in sort_key (\<lambda>(j, _). uuid_rank E (map fst m') j) m')"

definition contains :: "uuid \<Rightarrow> connections \<Rightarrow> bool" where
  "contains i m \<longleftrightarrow> map_of m i \<noteq> None"

definition on_connection ::
  "connection_map \<Rightarrow> uuid \<Rightarrow> (connection \<Rightarrow> connection) \<Rightarrow> 'v::len state \<Rightarrow> 'v state" where
  "on_connection k i f st =
     st\<lparr>st_connections := (st_connections st)
          (k := map (\<lambda>(j, c). (j, if j = i then f c else c)) (st_connections st k))\<rparr>"

section \<open>join and leave\<close>

text \<open>The channel that bears the connection's id: two lower-case hex digits per byte.\<close>

definition hex_digit :: "byte \<Rightarrow> byte" where
  "hex_digit n = (if n < 10 then 48 + n else 87 + n)"

definition uuid_bytes :: "uuid \<Rightarrow> bytes" where
  "uuid_bytes i = rev (word_to_le i)"

definition uuid_hex :: "uuid \<Rightarrow> bytes" where
  "uuid_hex i = concat (map (\<lambda>b. [hex_digit (drop_bit 4 b), hex_digit (b AND 15)]) (uuid_bytes i))"

definition star_channel :: bytes where "star_channel = [42]"

definition join ::
  "('v::len, 'x) protocol_scheme \<Rightarrow> u64 \<Rightarrow> connection \<Rightarrow> 'v state \<Rightarrow> 'v state" where
  "join E now c st =
     (let k = home c; i = c_id c;
          st' = st\<lparr>st_connections := (st_connections st)
                     (k := try_emplace E i c (st_connections st k))\<rparr>;
          subs1 = fst (insert_subscription (make_subscription now i (uuid_hex i))
                         (st_subscriptions st'));
          subs2 = fst (insert_subscription (make_subscription now i star_channel) subs1)
      in st'\<lparr>st_subscriptions := subs2\<rparr>)"

definition leave :: "connection \<Rightarrow> 'v::len state \<Rightarrow> 'v state" where
  "leave c st =
     (let k = home c; i = c_id c;
          st' = st\<lparr>st_subscriptions := erase_connection_subscriptions i (st_subscriptions st)\<rparr>
      in st'\<lparr>st_connections := (st_connections st')
               (k := filter (\<lambda>(j, _). j \<noteq> i) (st_connections st' k))\<rparr>)"

section \<open>The invariant\<close>

text \<open>
  Every connection stands under its own id in the map of its kind and type, in no other; every
  subscription belongs to a connected connection; nodes are allocated once; the metric tables have 32
  slots.
\<close>

definition live_ids :: "'v::len state \<Rightarrow> uuid set" where
  "live_ids st = (\<Union>k. ids (st_connections st k))"

definition connections_ok :: "'v::len state \<Rightarrow> bool" where
  "connections_ok st \<longleftrightarrow>
     (\<forall>k. distinct (map fst (st_connections st k))) \<and>
     (\<forall>k i c. (i, c) \<in> set (st_connections st k) \<longrightarrow>
        c_id c = i \<and> home c = k \<and> length (cm_commands (c_metrics c)) = 32) \<and>
     (\<forall>k k' i. i \<in> ids (st_connections st k) \<longrightarrow> i \<in> ids (st_connections st k') \<longrightarrow> k = k')"

definition subscriptions_ok :: "'v::len state \<Rightarrow> bool" where
  "subscriptions_ok st \<longleftrightarrow> sub_connection_id ` set (st_subscriptions st) \<subseteq> live_ids st"

definition entries_ok :: "'v::len state \<Rightarrow> bool" where
  "entries_ok st \<longleftrightarrow> storage_ok (st_storage st) \<and>
     (\<forall>n \<in> fst ` set (st_storage st). n < st_next_node st)"

definition state_ok :: "'v::len state \<Rightarrow> bool" where
  "state_ok st \<longleftrightarrow> entries_ok st \<and> connections_ok st \<and> subscriptions_ok st \<and>
     length (st_commands st) = 32"

named_theorems state_simps \<open>reading a state after an update\<close>

lemma in_idsI: "(i, c) \<in> set m \<Longrightarrow> i \<in> ids m"
  by (force simp: ids_def)

lemma in_idsE: "i \<in> ids m \<Longrightarrow> (\<And>c. (i, c) \<in> set m \<Longrightarrow> thesis) \<Longrightarrow> thesis"
  by (auto simp: ids_def)

lemma ids_simps [simp]:
  "ids [] = {}"
  "ids ((i, c) # m) = insert i (ids m)"
  "ids (filter (\<lambda>(j, _). j \<noteq> i) m) = ids m - {i}"
  "ids (map (\<lambda>(j, c). (j, f j c)) m) = ids m"
  by (auto simp: ids_def image_iff) force+

lemma mset_try_emplace:
  "mset (try_emplace E i c m) = (if i \<in> ids m then mset m else add_mset (i, c) (mset m))"
  by (simp add: try_emplace_def ids_def Let_def del: sort_key_simps)

lemma set_try_emplace [simp]:
  "set (try_emplace E i c m) = (if i \<in> ids m then set m else insert (i, c) (set m))"
  using arg_cong [OF mset_try_emplace [of E i c m], of set_mset] by (simp split: if_splits)

lemma ids_try_emplace [simp]: "ids (try_emplace E i c m) = insert i (ids m)"
  by (auto simp: ids_def split: if_splits)

lemma distinct_try_emplace:
  assumes "distinct (map fst m)"
  shows "distinct (map fst (try_emplace E i c m))"
proof (cases "i \<in> ids m")
  case True
  then show ?thesis using assms by (simp add: try_emplace_def ids_def)
next
  case False
  then have "mset (map fst (try_emplace E i c m)) = mset (map fst ((i, c) # m))"
    unfolding mset_map by (simp add: mset_try_emplace)
  then show ?thesis
    using False assms mset_eq_imp_distinct_iff by (fastforce simp: ids_def)
qed

lemma in_live_ids: "i \<in> live_ids st \<longleftrightarrow> (\<exists>k. i \<in> ids (st_connections st k))"
  by (auto simp: live_ids_def)

lemma contains_iff: "contains i m \<longleftrightarrow> i \<in> ids m"
  by (simp add: contains_def ids_def map_of_eq_None_iff)

lemma on_connection_ids [simp]:
  "ids (st_connections (on_connection k i f st) k') = ids (st_connections st k')"
  by (simp add: on_connection_def)

lemma on_connection_fields [simp]:
  "st_storage (on_connection k i f st) = st_storage st"
  "st_next_node (on_connection k i f st) = st_next_node st"
  "st_subscriptions (on_connection k i f st) = st_subscriptions st"
  "st_commands (on_connection k i f st) = st_commands st"
  "st_tasks (on_connection k i f st) = st_tasks st"
  "st_timer (on_connection k i f st) = st_timer st"
  "st_mutex (on_connection k i f st) = st_mutex st"
  "st_scheduled_key (on_connection k i f st) = st_scheduled_key st"
  "st_started_at (on_connection k i f st) = st_started_at st"
  "live_ids (on_connection k i f st) = live_ids st"
  by (simp_all add: set_eq_iff in_live_ids) (simp_all add: on_connection_def)

text \<open>An update that keeps a connection's identity and the size of its table keeps the invariant.\<close>

definition keeps_identity :: "(connection \<Rightarrow> connection) \<Rightarrow> bool" where
  "keeps_identity f \<longleftrightarrow> (\<forall>c. c_id (f c) = c_id c \<and> c_kind (f c) = c_kind c \<and> c_type (f c) = c_type c \<and>
     length (cm_commands (c_metrics (f c))) = length (cm_commands (c_metrics c)))"

lemma on_connection_ok:
  assumes "connections_ok st" "keeps_identity f"
  shows "connections_ok (on_connection k i f st)"
proof -
  have "map fst (st_connections (on_connection k i f st) k') = map fst (st_connections st k')" for k'
    by (auto simp: on_connection_def)
  moreover have "c_id c = j \<and> home c = k' \<and> length (cm_commands (c_metrics c)) = 32"
    if "(j, c) \<in> set (st_connections (on_connection k i f st) k')" for k' j c
    using that assms
    by (auto simp: on_connection_def connections_ok_def keeps_identity_def home_def split: if_splits)
  ultimately show ?thesis
    using assms(1) unfolding connections_ok_def by (metis on_connection_ids)
qed

section \<open>Joining and leaving\<close>

lemma join_fields [simp]:
  "st_storage (join E now c st) = st_storage st"
  "st_next_node (join E now c st) = st_next_node st"
  "st_commands (join E now c st) = st_commands st"
  "st_mutex (join E now c st) = st_mutex st"
  "st_tasks (join E now c st) = st_tasks st"
  "st_connections (join E now c st) =
     (st_connections st)(home c := try_emplace E (c_id c) c (st_connections st (home c)))"
  "st_subscriptions (join E now c st) = st_subscriptions st @
     [make_subscription now (c_id c) (uuid_hex (c_id c)), make_subscription now (c_id c) star_channel]"
  by (simp_all add: join_def Let_def insert_subscription_def)

lemma leave_fields [simp]:
  "st_storage (leave c st) = st_storage st"
  "st_next_node (leave c st) = st_next_node st"
  "st_commands (leave c st) = st_commands st"
  "st_mutex (leave c st) = st_mutex st"
  "st_tasks (leave c st) = st_tasks st"
  "st_connections (leave c st) =
     (st_connections st)(home c := filter (\<lambda>(j, _). j \<noteq> c_id c) (st_connections st (home c)))"
  "st_subscriptions (leave c st) =
     filter (\<lambda>s. sub_connection_id s \<noteq> c_id c) (st_subscriptions st)"
  by (simp_all add: leave_def Let_def erase_connection_subscriptions_def)

lemma live_ids_join: "live_ids (join E now c st) = insert (c_id c) (live_ids st)"
proof -
  have "ids (st_connections (join E now c st) k) =
      (if k = home c then insert (c_id c) else id) (ids (st_connections st k))" for k by simp
  then show ?thesis by (auto simp: live_ids_def split: if_splits)
qed

lemma connections_okD:
  assumes "connections_ok st"
  shows "distinct (map fst (st_connections st k))"
    and "(i, c) \<in> set (st_connections st k) \<Longrightarrow> c_id c = i"
    and "(i, c) \<in> set (st_connections st k) \<Longrightarrow> home c = k"
    and "(i, c) \<in> set (st_connections st k) \<Longrightarrow> length (cm_commands (c_metrics c)) = 32"
    and "i \<in> ids (st_connections st k) \<Longrightarrow> i \<in> ids (st_connections st k') \<Longrightarrow> k = k'"
  using assms unfolding connections_ok_def by blast+

lemma live_ids_leave:
  assumes "connections_ok st" "(c_id c, c) \<in> set (st_connections st (home c))"
  shows "live_ids (leave c st) = live_ids st - {c_id c}"
proof -
  have "c_id c \<in> ids (st_connections st (home c))" using assms(2) by (rule in_idsI)
  then have "c_id c \<in> ids (st_connections st k) \<Longrightarrow> k = home c" for k
    using connections_okD(5) [OF assms(1)] by blast
  moreover have "ids (st_connections (leave c st) k) =
      ids (st_connections st k) - (if k = home c then {c_id c} else {})" for k by simp
  ultimately show ?thesis unfolding live_ids_def by fastforce
qed

lemma make_state_ok: "state_ok (make_state now)"
  by (simp add: state_ok_def entries_ok_def connections_ok_def subscriptions_ok_def make_state_def)

lemma join_ok:
  assumes "state_ok st" "c_id c \<notin> live_ids st" "length (cm_commands (c_metrics c)) = 32"
  shows "state_ok (join E now c st)"
proof -
  have new: "c_id c \<notin> ids (st_connections st k)" for k
    using assms(2) by (auto simp: in_live_ids)
  have c: "connections_ok st" using assms(1) by (simp add: state_ok_def)
  have "connections_ok (join E now c st)"
    unfolding connections_ok_def
  proof (intro conjI allI impI, goal_cases)
    case (1 k)
    then show ?case using connections_okD(1) [OF c] by (simp add: distinct_try_emplace)
  next
    case (2 k i d)
    then show ?case using connections_okD(2) [OF c] new assms(3) by (auto split: if_splits)
  next
    case (3 k i d)
    then show ?case using connections_okD(3) [OF c] new assms(3) by (auto split: if_splits)
  next
    case (4 k i d)
    then show ?case using connections_okD(4) [OF c] new assms(3) by (auto split: if_splits)
  next
    case (5 k k' i)
    then show ?case using connections_okD(5) [OF c] new by (auto split: if_splits)
  qed
  then show ?thesis
    using assms(1) by (auto simp: state_ok_def entries_ok_def subscriptions_ok_def live_ids_join)
qed

lemma leave_ok:
  assumes "state_ok st" "(c_id c, c) \<in> set (st_connections st (home c))"
  shows "state_ok (leave c st)"
proof -
  have c: "connections_ok st" using assms(1) by (simp add: state_ok_def)
  have "connections_ok (leave c st)"
    unfolding connections_ok_def
  proof (intro conjI allI impI, goal_cases)
    case (1 k)
    then show ?case using connections_okD(1) [OF c] by (simp add: distinct_map_filter_key)
  next
    case (2 k i d)
    then show ?case using connections_okD(2) [OF c] by (auto split: if_splits)
  next
    case (3 k i d)
    then show ?case using connections_okD(3) [OF c] by (auto split: if_splits)
  next
    case (4 k i d)
    then show ?case using connections_okD(4) [OF c] by (auto split: if_splits)
  next
    case (5 k k' i)
    then show ?case using connections_okD(5) [OF c] by (auto split: if_splits)
  qed
  then show ?thesis
    using assms(1) live_ids_leave [OF c assms(2)]
    by (auto simp: state_ok_def entries_ok_def subscriptions_ok_def)
qed

end
