(* ===== verification/Key_Value.thy ===== *)
theory Key_Value
  imports Storage
begin

text \<open>
  The abstract view of the storage, against which the services are specified. Each key has a slot:
  \<open>Free\<close>; \<open>Live e\<close>, an entry that clients can see; or \<open>Lingering e\<close>, an entry that the
  garbage collector has marked \<open>expired_\<close> and not yet erased, which hides from every lookup but
  still occupies its key. The per-entry read and write counters are no part of the view.
\<close>

datatype 'e slot = Free | Live 'e | Lingering 'e

definition wrapper_slot :: "'v::len entry_wrapper \<Rightarrow> 'v entry slot" where
  "wrapper_slot w = (if w_expired w then Lingering (w_entry w) else Live (w_entry w))"

definition slots :: "'v::len storage \<Rightarrow> bytes \<Rightarrow> 'v entry slot" where
  "slots s k = (case storage_find k s of None \<Rightarrow> Free | Some (n, w) \<Rightarrow> wrapper_slot w)"

text \<open>What a client can look up.\<close>

fun live_entry :: "'e slot \<Rightarrow> 'e option" where
  "live_entry (Live e) = Some e"
| "live_entry _ = None"

text \<open>Everything of the container but the metrics.\<close>

definition skeleton :: "'v::len storage \<Rightarrow> (nat \<times> bytes \<times> 'v entry \<times> bool) list" where
  "skeleton s = map (\<lambda>(n, w). (n, w_key w, w_entry w, w_expired w)) s"

lemma skeleton_simps [simp]:
  "skeleton [] = []"
  "skeleton ((n, w) # s) = (n, w_key w, w_entry w, w_expired w) # skeleton s"
  by (simp_all add: skeleton_def)

lemma skeleton_keys: "map fst (skeleton s) = map fst s" "map (fst \<circ> snd) (skeleton s) = map (w_key \<circ> snd) s"
  by (simp_all add: skeleton_def comp_def split_def)

lemma storage_ok_skeleton: "skeleton s = skeleton t \<Longrightarrow> storage_ok s = storage_ok t"
  unfolding storage_ok_def by (metis skeleton_keys)

lemma nodes_skeleton: "skeleton s = skeleton t \<Longrightarrow> fst ` set s = fst ` set t"
  by (metis list.set_map skeleton_keys(1))

lemma storage_find_Cons:
  "storage_find k [] = None"
  "storage_find k ((n, w) # s) = (if w_key w = k then Some (n, w) else storage_find k s)"
  by (simp_all add: storage_find_def)

lemma slots_Cons:
  "slots [] k = Free"
  "slots ((n, w) # s) k = (if w_key w = k then wrapper_slot w else slots s k)"
  by (simp_all add: slots_def storage_find_Cons)

fun skeleton_slots :: "(nat \<times> bytes \<times> 'v::len entry \<times> bool) list \<Rightarrow> bytes \<Rightarrow> 'v entry slot" where
  "skeleton_slots [] k = Free"
| "skeleton_slots ((n, k', e, x) # s) k =
     (if k' = k then if x then Lingering e else Live e else skeleton_slots s k)"

lemma slots_via_skeleton: "slots s k = skeleton_slots (skeleton s) k"
  by (induction s) (simp_all add: slots_Cons wrapper_slot_def split_paired_all)

lemma slots_skeleton: "skeleton s = skeleton t \<Longrightarrow> slots s = slots t"
  by (rule ext) (simp add: slots_via_skeleton)

lemma skeleton_modify:
  assumes "\<And>w. w_key (f w) = w_key w \<and> w_entry (f w) = w_entry w \<and> w_expired (f w) = w_expired w"
  shows "skeleton (storage_modify n f s) = skeleton s"
  by (induction s) (simp_all add: skeleton_def storage_modify_def assms split_paired_all)

lemma skeleton_for_each:
  assumes "\<And>w. w_key (f w) = w_key w \<and> w_entry (f w) = w_entry w \<and> w_expired (f w) = w_expired w"
  shows "skeleton (storage_for_each f s) = skeleton s"
  by (induction s) (simp_all add: skeleton_def storage_for_each_def assms split_paired_all)

section \<open>The slots after each container operation\<close>

lemma slots_emplace:
  fixes E :: "('v::len, 'x) protocol_scheme"
  assumes "storage_ok s" "storage_find (w_key w) s = None" "n \<notin> fst ` set s"
  shows "slots (fst (storage_emplace E n w s)) = (slots s)(w_key w := wrapper_slot w)"
  using st.find_emplace [OF assms, of _ E] by (auto simp: slots_def fun_eq_iff)

lemma slots_erase:
  assumes "storage_ok s" "storage_find k s = Some (n, w)"
  shows "slots (storage_erase n s) = (slots s)(k := Free)"
  using st.find_erase [OF assms] by (auto simp: slots_def fun_eq_iff)

lemma slots_modify:
  assumes "storage_ok s" "storage_find k s = Some (n, w)" "\<And>w. w_key (f w) = w_key w"
  shows "slots (storage_modify n f s) = (slots s)(k := wrapper_slot (f w))"
  using st.find_modify [OF assms] by (auto simp: slots_def fun_eq_iff)

lemma nodes_modify [simp]: "fst ` set (storage_modify n f s) = fst ` set s"
  by (force simp: storage_modify_def)

lemma nodes_erase: "fst ` set (storage_erase n s) \<subseteq> fst ` set s"
  by (auto simp: storage_erase_def)

lemma nodes_emplace: "fst ` set (fst (storage_emplace E n w s)) \<subseteq> insert n (fst ` set s)"
  by (auto simp: fst_storage_emplace)

end
