(* ===== verification/Sample.thy ===== *)
theory Sample
  imports Protocol
begin

text \<open>
  One concrete value of the parameter record, used by the witnesses only: no lemma of the library
  rests on it. Its headers have the layout that the size functions of \<open>messages_service.cpp\<close> read
  (the positions of the size fields); the numbers of the enumerators are arbitrary.
\<close>

fun sample_request_code :: "request_types \<Rightarrow> byte" where
  "sample_request_code Insert_req = 1"
| "sample_request_code Query_req = 2"
| "sample_request_code Update_req = 3"
| "sample_request_code Purge_req = 4"
| "sample_request_code Set_req = 5"
| "sample_request_code Get_req = 6"
| "sample_request_code List_req = 7"
| "sample_request_code Info_req = 8"
| "sample_request_code Stat_req = 9"
| "sample_request_code Stats_req = 10"
| "sample_request_code Subscribe_req = 11"
| "sample_request_code Unsubscribe_req = 12"
| "sample_request_code Publish_req = 13"
| "sample_request_code Channel_req = 14"
| "sample_request_code Channels_req = 15"
| "sample_request_code Whoami_req = 16"
| "sample_request_code Connection_req = 17"
| "sample_request_code Connections_req = 18"
| "sample_request_code Event_req = 19"

fun sample_header_size :: "nat \<Rightarrow> request_types \<Rightarrow> nat" where
  "sample_header_size vs Insert_req = 2 * vs + 3"
| "sample_header_size vs Set_req = 2 * vs + 3"
| "sample_header_size vs Update_req = vs + 4"
| "sample_header_size vs Publish_req = vs + 2"
| "sample_header_size vs Event_req = vs + 2"
| "sample_header_size vs Connection_req = 17"
| "sample_header_size vs List_req = 1"
| "sample_header_size vs Info_req = 1"
| "sample_header_size vs Stats_req = 1"
| "sample_header_size vs Whoami_req = 1"
| "sample_header_size vs Channels_req = 1"
| "sample_header_size vs Connections_req = 1"
| "sample_header_size vs _ = 2"

fun sample_ttl_code :: "ttl_types \<Rightarrow> byte" where
  "sample_ttl_code Nanoseconds = 1"
| "sample_ttl_code Microseconds = 2"
| "sample_ttl_code Milliseconds = 3"
| "sample_ttl_code Seconds = 4"
| "sample_ttl_code Minutes = 5"
| "sample_ttl_code Hours = 6"
| "sample_ttl_code (Ttl_unnamed b) = b"

definition sample_ttl_of_code :: "byte \<Rightarrow> ttl_types" where
  "sample_ttl_of_code b =
     (if b = 1 then Nanoseconds else if b = 2 then Microseconds else if b = 3 then Milliseconds
      else if b = 4 then Seconds else if b = 5 then Minutes else if b = 6 then Hours
      else Ttl_unnamed b)"

fun sample_entry_code :: "entry_types \<Rightarrow> byte" where
  "sample_entry_code Counter = 0"
| "sample_entry_code Raw = 1"
| "sample_entry_code (Entry_unnamed b) = b"

definition sample_entry_of_code :: "byte \<Rightarrow> entry_types" where
  "sample_entry_of_code b = (if b = 0 then Counter else if b = 1 then Raw else Entry_unnamed b)"

definition sample_attribute :: "byte \<Rightarrow> attribute_types" where
  "sample_attribute b = (if b = 0 then Quota else if b = 1 then Ttl else Attribute_unnamed b)"

definition sample_change :: "byte \<Rightarrow> change_types" where
  "sample_change b =
     (if b = 0 then Patch else if b = 1 then Increase else if b = 2 then Decrease
      else Change_unnamed b)"

definition field :: "nat \<Rightarrow> nat \<Rightarrow> bytes \<Rightarrow> bytes" where
  "field off n v = take n (drop off v)"

definition byte_at :: "nat \<Rightarrow> bytes \<Rightarrow> nat" where
  "byte_at i v = (if i < length v then unat (v ! i) else 0)"

definition sample_sized :: "bytes \<Rightarrow> bytes option" where
  "sample_sized v =
     (if length v < 2 + byte_at 1 v then None else Some (field 2 (byte_at 1 v) v))"

definition sample_protocol :: "'v::len protocol" where
  "sample_protocol = (let vs = LENGTH('v) div 8 in
     \<lparr>request_code = sample_request_code,
      header_size = sample_header_size vs,
      ttl_code = sample_ttl_code, ttl_of_code = sample_ttl_of_code,
      entry_code = sample_entry_code, entry_of_code = sample_entry_of_code,
      parse_insert = (\<lambda>v. let n = byte_at (2 * vs + 2) v in
        if length v < 2 * vs + 3 + n then None
        else Some \<lparr>ins_key = field (2 * vs + 3) n v, ins_quota = field 1 vs v,
          ins_ttl_type = sample_ttl_of_code (v ! (1 + vs)), ins_ttl = field (2 + vs) vs v\<rparr>),
      parse_set = (\<lambda>v. let n = byte_at (2 + vs) v;
          k = unat (le_to_word (field (3 + vs) vs v) :: 'v word) in
        if length v < 2 * vs + 3 + n + k then None
        else Some \<lparr>set_key = field (2 * vs + 3) n v, set_value = field (2 * vs + 3 + n) k v,
          set_ttl_type = sample_ttl_of_code (v ! 1), set_ttl = field 2 vs v\<rparr>),
      parse_query = sample_sized,
      parse_update = (\<lambda>v. let n = byte_at (3 + vs) v in
        if length v < vs + 4 + n then None
        else Some \<lparr>upd_attribute = sample_attribute (v ! 1), upd_change = sample_change (v ! 2),
          upd_value = le_to_word (field 3 vs v), upd_key = field (vs + 4) n v\<rparr>),
      parse_purge = sample_sized,
      parse_stat = sample_sized,
      parse_subscribe = sample_sized,
      parse_unsubscribe = sample_sized,
      parse_channel = sample_sized,
      parse_publish = (\<lambda>v. let n = byte_at 1 v;
          k = unat (le_to_word (field 2 vs v) :: 'v word) in
        if length v < vs + 2 + n + k then None
        else Some \<lparr>pub_channel = field (vs + 2) n v, pub_value = field (vs + 2 + n) k v\<rparr>),
      parse_event = (\<lambda>v. let n = byte_at 1 v;
          k = unat (le_to_word (field 2 vs v) :: 'v word) in
        if length v < vs + 2 + n + k then None
        else Some \<lparr>evt_channel = field (vs + 2) n v, evt_buffer = field (vs + 2 + n) k v\<rparr>),
      parse_connection = (\<lambda>v. if length v < 17 then None else Some (field 1 16 v)),
      hash_rank = (\<lambda>_ _. 0),
      uuid_rank = (\<lambda>_ _. 0)\<rparr>)"

lemma sample_protocol_fields [simp]:
  "request_code sample_protocol = sample_request_code"
  "header_size (sample_protocol :: 'v::len protocol) = sample_header_size (LENGTH('v) div 8)"
  "ttl_code sample_protocol = sample_ttl_code"
  "entry_code sample_protocol = sample_entry_code"
  "ttl_of_code sample_protocol = sample_ttl_of_code"
  "entry_of_code sample_protocol = sample_entry_of_code"
  "parse_query sample_protocol = sample_sized"
  "parse_purge sample_protocol = sample_sized"
  "parse_stat sample_protocol = sample_sized"
  "parse_subscribe sample_protocol = sample_sized"
  "parse_unsubscribe sample_protocol = sample_sized"
  "parse_channel sample_protocol = sample_sized"
  "hash_rank sample_protocol = (\<lambda>_ _. 0)"
  "uuid_rank sample_protocol = (\<lambda>_ _. 0)"
  by (simp_all add: sample_protocol_def Let_def)

lemma sample_request_codes_ok: "request_codes_ok (sample_protocol :: 'v::len protocol)"
proof -
  have "sample_request_code r = sample_request_code r' \<Longrightarrow> r = r'" for r r'
    by (cases r; cases r') simp_all
  moreover have "unat (sample_request_code r) < 32" for r by (cases r) simp_all
  ultimately show ?thesis by (simp add: request_codes_ok_def inj_def)
qed

end
