(* ===== verification/Expiration.thy ===== *)
theory Expiration
  imports Sample "HOL-Library.Signed_Division"
begin

text \<open>
  \<open>src/include/throttr/time.hpp\<close>: from a TTL to the expiration point and back. The
  \<open>std::chrono\<close> durations count in signed 64-bit integers; where a product leaves that range
  the C++ behaviour is undefined and the model wraps, so the theorems name the bound.
\<close>

text \<open>\<open>get_expiration_point\<close>: \<open>default\<close> is the branch of seconds and of unnamed values.\<close>

definition get_expiration_point ::
  "('v::len, 'x) protocol_scheme \<Rightarrow> u64 \<Rightarrow> ttl_types \<Rightarrow> bytes \<Rightarrow> u64 res" where
  "get_expiration_point E now ttl_type ttl =
     bind_res (read_value E ttl) (\<lambda>v.
       let offset_ns = (case ttl_type of
             Nanoseconds \<Rightarrow> ucast v
           | Microseconds \<Rightarrow> ucast v * 1000
           | Milliseconds \<Rightarrow> ucast v * 1000000
           | Minutes \<Rightarrow> ucast v * 60000000000
           | Hours \<Rightarrow> ucast v * 3600000000000
           | _ \<Rightarrow> ucast v * 1000000000)
       in Inr (now + offset_ns))"

text \<open>
  \<open>get_ttl\<close>: \<open>nanoseconds(diff_ns)\<close> reads the difference as signed, \<open>duration_cast\<close>
  divides towards zero, and the result is cut to \<open>value_type\<close>.
\<close>

definition get_ttl :: "u64 \<Rightarrow> u64 \<Rightarrow> ttl_types \<Rightarrow> 'v::len word" where
  "get_ttl now_ns expires_at ttl_type =
     (if expires_at \<le> now_ns then 0
      else let diff_ns = expires_at - now_ns in
        (case ttl_type of
           Nanoseconds \<Rightarrow> ucast diff_ns
         | Microseconds \<Rightarrow> word_of_int (sint diff_ns sdiv 1000)
         | Milliseconds \<Rightarrow> word_of_int (sint diff_ns sdiv 1000000)
         | Minutes \<Rightarrow> word_of_int (sint diff_ns sdiv 60000000000)
         | Hours \<Rightarrow> word_of_int (sint diff_ns sdiv 3600000000000)
         | _ \<Rightarrow> word_of_int (sint diff_ns sdiv 1000000000)))"

section \<open>Specification\<close>

text \<open>Nanoseconds per unit; the unnamed values behave as seconds in both functions.\<close>

fun unit_ns :: "ttl_types \<Rightarrow> nat" where
  "unit_ns Nanoseconds = 1"
| "unit_ns Microseconds = 1000"
| "unit_ns Milliseconds = 1000000"
| "unit_ns Seconds = 1000000000"
| "unit_ns Minutes = 60000000000"
| "unit_ns Hours = 3600000000000"
| "unit_ns (Ttl_unnamed b) = 1000000000"

lemma unit_ns_pos [simp]: "0 < unit_ns t"
  by (cases t) auto

lemma get_expiration_point_eq:
  fixes E :: "('v::len, 'x) protocol_scheme"
  assumes "read_value E ttl = Inr v"
  shows "get_expiration_point E now t ttl = Inr (now + ucast v * of_nat (unit_ns t))"
  using assms by (cases t) (simp_all add: get_expiration_point_def)

lemma get_expiration_point_error:
  "length ttl < value_size E \<Longrightarrow> get_expiration_point E now t ttl = Inl Out_of_bounds"
  by (simp add: get_expiration_point_def read_value_def)

lemma unat_expiration:
  fixes v :: "'v::len word"
  assumes "LENGTH('v) \<le> 64" "unat now + unat v * unit_ns t < 2 ^ 64"
  shows "unat (now + ucast v * of_nat (unit_ns t) :: u64) = unat now + unat v * unit_ns t"
proof -
  have u: "unat (ucast v :: u64) = unat v"
    using assms(1) by (simp add: unat_ucast_up)
  have n: "unat (of_nat (unit_ns t) :: u64) = unit_ns t"
    by (cases t) simp_all
  define x where "x = (ucast v * of_nat (unit_ns t) :: u64)"
  have "unat x = unat v * unit_ns t"
    using assms(2) by (simp add: x_def unat_word_ariths u n)
  then show ?thesis
    using assms(2) by (simp flip: x_def add: unat_word_ariths)
qed

lemma sdiv_int_nat: "int a sdiv int b = int (a div b)"
  by (cases "a = 0"; cases "b = 0") (simp_all add: signed_divide_int_def zdiv_int)

lemma get_ttl_div:
  assumes "now < expires" "unat expires - unat now < 2 ^ 63"
  shows "(get_ttl now expires t :: 'v::len word) =
    of_nat ((unat expires - unat now) div unit_ns t)"
proof -
  let ?d = "unat expires - unat now"
  have d: "unat (expires - now) = ?d"
    using assms(1) by (intro unat_sub) simp
  then have i: "uint (expires - now) = int ?d"
    by (metis uint_nat)
  have s: "sint (expires - now) = int ?d"
    using i assms(2) by (simp add: sint_uint signed_take_bit_int_eq_self)
  have c: "ucast (expires - now) = (of_nat ?d :: 'v word)"
    using of_nat_unat [of "expires - now", where ?'a = "'v word"] by (simp add: d)
  have q: "sint (expires - now) sdiv int k = int (?d div k)" for k
    unfolding s by (rule sdiv_int_nat)
  have "\<not> expires \<le> now" using assms(1) by simp
  then show ?thesis
    using q [of 1000] q [of 1000000] q [of 60000000000] q [of 3600000000000] q [of 1000000000]
    by (cases t) (simp_all add: get_ttl_def c)
qed

section \<open>Properties\<close>

text \<open>A TTL survives the trip to an expiration point and back: for every unit, reading the
  remaining TTL of a freshly computed expiration point at the same instant gives the TTL the client
  sent, as long as the point fits in 64 bits and the duration in a signed 64-bit count.\<close>

theorem ttl_roundtrip:
  fixes E :: "('v::len, 'x) protocol_scheme" and v :: "'v word"
  assumes "8 dvd LENGTH('v)" "LENGTH('v) \<le> 64"
    and "unat v * unit_ns t < 2 ^ 63" "unat now + unat v * unit_ns t < 2 ^ 64"
  shows "bind_res (get_expiration_point E now t (word_to_le v)) (\<lambda>p. Inr (get_ttl now p t))
    = Inr v"
proof -
  let ?p = "now + ucast v * of_nat (unit_ns t) :: u64"
  have e: "get_expiration_point E now t (word_to_le v) = Inr ?p"
    using read_value_word_to_le [OF assms(1), of E v "[]"] by (simp add: get_expiration_point_eq)
  have u: "unat ?p = unat now + unat v * unit_ns t"
    using unat_expiration [OF assms(2,4)] .
  have "get_ttl now ?p t = v"
  proof (cases "v = 0")
    case True
    then show ?thesis by (simp add: get_ttl_def)
  next
    case False
    then have "0 < unat v" by (simp add: unat_gt_0)
    then have "now < ?p" by (simp add: word_less_nat_alt u)
    moreover have "unat ?p - unat now < 2 ^ 63" using assms(3) by (simp add: u)
    ultimately have "get_ttl now ?p t = (of_nat ((unat ?p - unat now) div unit_ns t) :: 'v word)"
      by (rule get_ttl_div)
    then show ?thesis by (simp add: u)
  qed
  with e show ?thesis by simp
qed

theorem ttl_roundtrip_witness:
  "bind_res (get_expiration_point (sample_protocol :: 16 protocol) 1000 Hours (word_to_le (65535 :: 16 word)))
      (\<lambda>p. Inr (get_ttl 1000 p Hours)) = Inr (65535 :: 16 word)"
  using ttl_roundtrip [of "65535 :: 16 word" Hours 1000 sample_protocol] by simp

text \<open>The TTL a client reads is the whole number of units left until the expiration point,
  cut to \<open>value_type\<close>: a remaining time of \<open>2 ^ w\<close> units or more wraps around.\<close>

theorem ttl_reported:
  assumes "unat expires - unat now < 2 ^ 63"
  shows "unat (get_ttl now expires t :: 'v::len word) =
    (unat expires - unat now) div unit_ns t mod 2 ^ LENGTH('v)"
proof (cases "expires \<le> now")
  case True
  then show ?thesis by (simp add: get_ttl_def word_le_nat_alt)
next
  case False
  then show ?thesis by (simp add: get_ttl_div [OF _ assms] unat_of_nat)
qed

theorem ttl_reported_witness:
  "unat (get_ttl 0 65536 Nanoseconds :: 16 word) = 0 \<and>
   unat (get_ttl 0 65535 Nanoseconds :: 16 word) = 65535"
  using ttl_reported [of 65536 0 Nanoseconds, where ?'v = 16]
    ttl_reported [of 65535 0 Nanoseconds, where ?'v = 16] by simp

end
