(* ===== verification/Sample_State.thy ===== *)
theory Sample_State
  imports State Key_Value Sample
begin

text \<open>The small concrete states that the witnesses start from.\<close>

text \<open>A storage of one counter under the key \<open>[7]\<close>.\<close>

definition one_counter :: "'v::len word \<Rightarrow> 'v state" where
  "one_counter q = (make_state 0)
     \<lparr>st_storage := [(0, \<lparr>w_key = [7], w_entry = \<lparr>e_type = Counter, e_counter = q, e_buffer = [],
        e_ttl_type = Seconds, e_expires_at = 5000\<rparr>, w_expired = False, w_metrics = new_entry_metrics\<rparr>)],
      st_next_node := 1\<rparr>"

lemma one_counter_ok:
  "entries_ok (one_counter q)"
  "slots (st_storage (one_counter q)) [7] = Live \<lparr>e_type = Counter, e_counter = q, e_buffer = [],
        e_ttl_type = Seconds, e_expires_at = 5000\<rparr>"
  by (simp_all add: entries_ok_def storage_ok_def one_counter_def slots_def storage_find_def
      wrapper_slot_def)

lemma one_counter_state_ok: "state_ok (one_counter q :: 'v::len state)"
proof -
  have "state_ok (make_state 0 :: 'v state)" by (rule make_state_ok)
  then show ?thesis
    using one_counter_ok(1) [of q]
    by (simp add: state_ok_def connections_ok_def subscriptions_ok_def live_ids_def one_counter_def)
qed

text \<open>One raw entry under \<open>[7]\<close>, visible or waiting to be erased.\<close>

definition one_raw :: "bool \<Rightarrow> u64 \<Rightarrow> 'v::len state" where
  "one_raw expired expires_at = (make_state 0)
     \<lparr>st_storage := [(0, \<lparr>w_key = [7], w_entry = \<lparr>e_type = Raw, e_counter = 0, e_buffer = [1, 2],
        e_ttl_type = Seconds, e_expires_at = expires_at\<rparr>, w_expired = expired,
        w_metrics = new_entry_metrics\<rparr>)],
      st_next_node := 1\<rparr>"

lemma one_raw_ok:
  "entries_ok (one_raw expired x)"
  "slots (st_storage (one_raw expired x)) [7] = (if expired then Lingering else Live)
     \<lparr>e_type = Raw, e_counter = 0, e_buffer = [1, 2], e_ttl_type = Seconds, e_expires_at = x\<rparr>"
  "\<not> st_mutex (one_raw expired x)"
  by (simp_all add: entries_ok_def storage_ok_def one_raw_def make_state_def slots_def storage_find_def
      wrapper_slot_def)

end
