(* ===== verification/Find_Create.thy ===== *)
theory Find_Create
  imports State Key_Value Expiration Sample_State
begin

text \<open>
  \<open>find_service.cpp\<close> and \<open>create_service.cpp\<close>: looking an entry up, and creating it
  (\<open>INSERT\<close> for counters, \<open>SET\<close> for raw values).
\<close>

definition on_storage :: "('v::len storage \<Rightarrow> 'v storage) \<Rightarrow> 'v state \<Rightarrow> 'v state" where
  "on_storage f st = st\<lparr>st_storage := f (st_storage st)\<rparr>"

definition on_metrics :: "(entry_metrics \<Rightarrow> entry_metrics) \<Rightarrow> 'v::len entry_wrapper \<Rightarrow> 'v entry_wrapper"
where
  "on_metrics f w = w\<lparr>w_metrics := f (w_metrics w)\<rparr>"

lemma on_metrics_fields [simp]:
  "w_key (on_metrics f w) = w_key w"
  "w_entry (on_metrics f w) = w_entry w"
  "w_expired (on_metrics f w) = w_expired w"
  "w_metrics (on_metrics f w) = f (w_metrics w)"
  by (simp_all add: on_metrics_def)

lemma on_storage_fields [simp]:
  "st_storage (on_storage f st) = f (st_storage st)"
  "st_next_node (on_storage f st) = st_next_node st"
  "st_connections (on_storage f st) = st_connections st"
  "st_subscriptions (on_storage f st) = st_subscriptions st"
  "st_commands (on_storage f st) = st_commands st"
  "st_tasks (on_storage f st) = st_tasks st"
  "st_mutex (on_storage f st) = st_mutex st"
  "st_timer (on_storage f st) = st_timer st"
  by (simp_all add: on_storage_def)

section \<open>find_or_fail\<close>

text \<open>The iterator it returns is given by its node and the element it points to.\<close>

definition find_or_fail ::
  "'v::len state \<Rightarrow> bytes \<Rightarrow> (nat \<times> 'v entry_wrapper) option \<times> 'v state" where
  "find_or_fail st k =
     (case storage_find k (st_storage st) of
        None \<Rightarrow> (None, st)
      | Some (n, w) \<Rightarrow>
          if w_expired w then (None, st)
          else (Some (n, on_metrics count_read w),
                on_storage (storage_modify n (on_metrics count_read)) st))"

lemma find_or_fail_None:
  "fst (find_or_fail st k) = None \<longleftrightarrow> live_entry (slots (st_storage st) k) = None"
  "fst (find_or_fail st k) = None \<Longrightarrow> snd (find_or_fail st k) = st"
  by (auto simp: find_or_fail_def slots_def wrapper_slot_def split: option.splits)

lemma find_or_fail_Some:
  assumes "find_or_fail st k = (Some (n, w), st')" "storage_ok (st_storage st)"
  shows "storage_find k (st_storage st') = Some (n, w)"
    and "slots (st_storage st) k = Live (w_entry w)"
    and "\<not> w_expired w" "w_key w = k"
    and "st' = on_storage (storage_modify n (on_metrics count_read)) st"
proof -
  from assms(1) obtain w0 where w0: "storage_find k (st_storage st) = Some (n, w0)"
    "\<not> w_expired w0" "w = on_metrics count_read w0"
    "st' = on_storage (storage_modify n (on_metrics count_read)) st"
    by (auto simp: find_or_fail_def split: option.splits if_splits)
  show "storage_find k (st_storage st') = Some (n, w)"
    using st.find_modify [OF assms(2) w0(1), of "on_metrics count_read" k] w0 by simp
  show "slots (st_storage st) k = Live (w_entry w)" "\<not> w_expired w" "w_key w = k"
    using w0 storage_find_SomeD [OF w0(1)] by (auto simp: slots_def wrapper_slot_def)
  show "st' = on_storage (storage_modify n (on_metrics count_read)) st" by (rule w0(4))
qed

lemma find_or_fail_skeleton:
  "skeleton (st_storage (snd (find_or_fail st k))) = skeleton (st_storage st)"
  by (auto simp: find_or_fail_def skeleton_modify split: option.split)

lemma find_or_fail_frame:
  "snd (find_or_fail st k) = on_storage (\<lambda>_. st_storage (snd (find_or_fail st k))) st"
  by (auto simp: find_or_fail_def on_storage_def split: option.split)

section \<open>create_service::use\<close>

text \<open>
  After an insertion the loop over the index counts a read of every element it passes, stops at the
  first one not marked expired, and asks for a collection at the new expiration point when that
  element does not expire earlier.
\<close>

fun scan_first_live :: "u64 \<Rightarrow> 'v::len storage \<Rightarrow> 'v storage \<times> bool" where
  "scan_first_live expires_at [] = ([], False)"
| "scan_first_live expires_at ((n, w) # s) =
     (let w' = on_metrics count_read w
      in if \<not> w_expired w then ((n, w') # s, expires_at \<le> e_expires_at (w_entry w))
         else let (s', found) = scan_first_live expires_at s in ((n, w') # s', found))"

definition set_again :: "bytes \<Rightarrow> ttl_types \<Rightarrow> u64 \<Rightarrow> 'v::len entry_wrapper \<Rightarrow> 'v entry_wrapper" where
  "set_again value ttl_type expires_at w =
     w\<lparr>w_entry := (update_buffer value (w_entry w))
          \<lparr>e_expires_at := expires_at, e_ttl_type := ttl_type\<rparr>,
       w_metrics := count_write (w_metrics w)\<rparr>"

definition emplace_entry ::
  "('v::len, 'x) protocol_scheme \<Rightarrow> bytes \<Rightarrow> bytes \<Rightarrow> ttl_types \<Rightarrow> u64 \<Rightarrow> entry_types \<Rightarrow> 'v state
     \<Rightarrow> (bool \<times> 'v state) res" where
  "emplace_entry E key value ttl_type expires_at type st =
     bind_res (make_wrapper E key type value ttl_type expires_at) (\<lambda>w.
       let (s', inserted) = storage_emplace E (st_next_node st) w (st_storage st);
           st' = st\<lparr>st_storage := s', st_next_node := Suc (st_next_node st)\<rparr>
       in if inserted
          then let (s'', schedule) = scan_first_live expires_at s'
               in Inr (True, st'\<lparr>st_storage := s'',
                      st_tasks := st_tasks st @ (if schedule then [expires_at] else [])\<rparr>)
          else Inr (False, st'))"

definition create_use ::
  "('v::len, 'x) protocol_scheme \<Rightarrow> u64 \<Rightarrow> bytes \<Rightarrow> bytes \<Rightarrow> ttl_types \<Rightarrow> bytes \<Rightarrow> entry_types \<Rightarrow> bool
     \<Rightarrow> 'v state \<Rightarrow> (bool \<times> 'v state) res" where
  "create_use E now key value ttl_type ttl type as_insert st =
     bind_res (get_expiration_point E now ttl_type ttl) (\<lambda>expires_at.
       let existing = (if as_insert then None else storage_find key (st_storage st))
       in case existing of
            Some (n, w) \<Rightarrow>
              if e_type (w_entry w) \<noteq> Counter
              then Inr (True, on_storage (storage_modify n (set_again value ttl_type expires_at)) st)
              else emplace_entry E key value ttl_type expires_at type st
          | None \<Rightarrow> emplace_entry E key value ttl_type expires_at type st)"

lemma scan_first_live_skeleton [simp]: "skeleton (fst (scan_first_live x s)) = skeleton s"
  by (induction x s rule: scan_first_live.induct) (auto simp: Let_def split: prod.splits)

lemma set_again_fields [simp]:
  "w_key (set_again v t x w) = w_key w"
  "w_expired (set_again v t x w) = w_expired w"
  by (simp_all add: set_again_def)

section \<open>Specification of use\<close>

text \<open>What \<open>use\<close> answers and what it leaves under its key, by the slot it finds there.\<close>

fun create_spec ::
  "bool \<Rightarrow> 'v::len entry \<Rightarrow> ('v entry \<Rightarrow> 'v entry) \<Rightarrow> 'v entry slot \<Rightarrow> bool \<times> 'v entry slot" where
  "create_spec as_insert fresh again Free = (True, Live fresh)"
| "create_spec as_insert fresh again (Live e) =
     (if as_insert \<or> e_type e = Counter then (False, Live e) else (True, Live (again e)))"
| "create_spec as_insert fresh again (Lingering e) =
     (if as_insert \<or> e_type e = Counter then (False, Lingering e) else (True, Lingering (again e)))"

definition rewritten :: "bytes \<Rightarrow> ttl_types \<Rightarrow> u64 \<Rightarrow> 'v::len entry \<Rightarrow> 'v entry" where
  "rewritten value ttl_type expires_at e =
     e\<lparr>e_buffer := value, e_expires_at := expires_at, e_ttl_type := ttl_type\<rparr>"

lemma entries_ok_nodes: "entries_ok st \<Longrightarrow> st_next_node st \<notin> fst ` set (st_storage st)"
  by (auto simp: entries_ok_def)

lemma entries_okI:
  assumes "storage_ok (st_storage st')" "fst ` set (st_storage st') \<subseteq> insert (st_next_node st) N"
    "N \<subseteq> {..<st_next_node st}" "st_next_node st < st_next_node st'"
  shows "entries_ok st'"
  using assms by (force simp: entries_ok_def)

lemma emplace_entry_slots:
  fixes E :: "('v::len, 'x) protocol_scheme"
  assumes "entries_ok st" "emplace_entry E key value ttl_type ex type st = Inr (ok, st')"
  obtains e where "make_entry E type value ttl_type ex = Inr e"
    and "ok \<longleftrightarrow> slots (st_storage st) key = Free"
    and "slots (st_storage st') =
      (if ok then (slots (st_storage st))(key := Live e) else slots (st_storage st))"
    and "entries_ok st'"
proof -
  let ?s = "st_storage st"
  from assms(2) obtain w where w: "make_wrapper E key type value ttl_type ex = Inr w"
    by (auto simp: emplace_entry_def res_simps)
  then obtain e where e: "make_entry E type value ttl_type ex = Inr e"
    "wrapper_slot w = Live e" "w_key w = key"
    by (auto simp: make_wrapper_def res_simps wrapper_slot_def)
  note new = entries_ok_nodes [OF assms(1)]
  have s: "storage_ok ?s" using assms(1) by (simp add: entries_ok_def)
  have nodes: "fst ` set (fst (storage_emplace E (st_next_node st) w ?s)) \<subseteq> insert (st_next_node st) (fst ` set ?s)"
    by (rule nodes_emplace)
  have below: "fst ` set ?s \<subseteq> {..<st_next_node st}"
    using assms(1) by (auto simp: entries_ok_def)
  have free: "slots ?s key = Free \<longleftrightarrow> storage_find key ?s = None"
    by (auto simp: slots_def wrapper_slot_def split: option.splits)
  show thesis
  proof (cases "storage_find key ?s = None")
    case True
    then have em: "storage_emplace E (st_next_node st) w ?s = (storage_place E (st_next_node st) w ?s, True)"
      using e by (simp add: storage_emplace_def)
    then have r: "ok" "skeleton (st_storage st') = skeleton (storage_place E (st_next_node st) w ?s)"
      "st_next_node st' = Suc (st_next_node st)"
      using assms(2) w scan_first_live_skeleton [of ex "storage_place E (st_next_node st) w ?s"]
      by (cases "scan_first_live ex (storage_place E (st_next_node st) w ?s)",
          auto simp: emplace_entry_def Let_def simp del: scan_first_live_skeleton)+
    have "slots (st_storage st') = (slots ?s)(key := Live e)"
      using slots_emplace [OF s _ new, of w E] True e em slots_skeleton [OF r(2)] by simp
    moreover have "entries_ok st'"
      using r storage_emplace_ok [OF s new, of E w] nodes below em
        storage_ok_skeleton [OF r(2)] nodes_skeleton [OF r(2)]
      by (intro entries_okI [of st' st "fst ` set ?s"]) auto
    ultimately show thesis using that [OF e(1)] r(1) True free by simp
  next
    case False
    then have "storage_emplace E (st_next_node st) w ?s = (?s, False)"
      using e by (auto simp: storage_emplace_def)
    then have r: "\<not> ok" "st_storage st' = ?s" "st_next_node st' = Suc (st_next_node st)"
      using assms(2) w by (auto simp: emplace_entry_def)
    moreover have "entries_ok st'"
      using r s below by (intro entries_okI [of st' st "fst ` set ?s"]) auto
    ultimately show thesis using that [OF e(1)] False free by simp
  qed
qed

lemma create_use_slots:
  fixes E :: "('v::len, 'x) protocol_scheme"
  assumes "entries_ok st" "create_use E now key value ttl_type ttl type as_insert st = Inr (ok, st')"
    and "get_expiration_point E now ttl_type ttl = Inr ex"
    and "make_entry E type value ttl_type ex = Inr e"
  shows "(\<exists>slot. create_spec as_insert e (rewritten value ttl_type ex) (slots (st_storage st) key) = (ok, slot) \<and>
      slots (st_storage st') = (slots (st_storage st))(key := slot)) \<and> entries_ok st'"
proof (cases "\<exists>n w. \<not> as_insert \<and> storage_find key (st_storage st) = Some (n, w) \<and>
    e_type (w_entry w) \<noteq> Counter")
  case True
  then obtain n w where w: "\<not> as_insert" "storage_find key (st_storage st) = Some (n, w)"
    "e_type (w_entry w) \<noteq> Counter" by blast
  let ?f = "set_again value ttl_type ex"
  have st': "ok" "st' = on_storage (storage_modify n ?f) st"
    using assms(2,3) w by (auto simp: create_use_def)
  have s: "storage_ok (st_storage st)" using assms(1) by (simp add: entries_ok_def)
  have ws: "wrapper_slot (?f w) =
      (if w_expired w then Lingering else Live) (rewritten value ttl_type ex (w_entry w))"
    by (simp add: wrapper_slot_def set_again_def rewritten_def update_buffer_def)
  have "entries_ok st'"
    using assms(1) st' storage_modify_ok [OF s, of ?f] by (simp add: entries_ok_def)
  moreover have "slots (st_storage st') = (slots (st_storage st))(key := wrapper_slot (?f w))"
    using st' slots_modify [OF s w(2), of ?f] by simp
  ultimately show ?thesis
    using w st'(1) ws by (auto simp: slots_def wrapper_slot_def)
next
  case False
  then have "emplace_entry E key value ttl_type ex type st = Inr (ok, st')"
    using assms(2,3) by (auto simp: create_use_def split: option.splits if_splits)
  then obtain e' where e': "make_entry E type value ttl_type ex = Inr e'"
    "ok \<longleftrightarrow> slots (st_storage st) key = Free"
    "slots (st_storage st') =
      (if ok then (slots (st_storage st))(key := Live e') else slots (st_storage st))"
    "entries_ok st'"
    by (rule emplace_entry_slots [OF assms(1)])
  have "e' = e" using e'(1) assms(4) by simp
  moreover have "\<not> as_insert \<longrightarrow> slots (st_storage st) key = Live x \<or>
      slots (st_storage st) key = Lingering x \<longrightarrow> e_type x = Counter" for x
    using False by (auto simp: slots_def wrapper_slot_def split: option.splits if_splits)
  ultimately show ?thesis
    using e' by (cases "slots (st_storage st) key") (auto simp: fun_upd_idem_iff)
qed

text \<open>C2: \<open>use\<close> meets its specification: for every slot the key can be in, the answer and the new
  slot are those of \<open>create_spec\<close>, every other key keeps its slot, and the container stays well
  formed. In particular an expired key refuses \<open>INSERT\<close> until it is erased, and takes \<open>SET\<close>
  with success while staying invisible.\<close>

theorem create_use_refines:
  fixes E :: "('v::len, 'x) protocol_scheme"
  assumes "entries_ok st" "create_use E now key value ttl_type ttl type as_insert st = Inr (ok, st')"
    and "get_expiration_point E now ttl_type ttl = Inr ex"
    and "make_entry E type value ttl_type ex = Inr e"
  shows "(\<exists>slot. create_spec as_insert e (rewritten value ttl_type ex) (slots (st_storage st) key) = (ok, slot) \<and>
      slots (st_storage st') = (slots (st_storage st))(key := slot)) \<and> entries_ok st'"
  by (rule create_use_slots [OF assms])

theorem create_use_refines_witness:
  "\<exists>st'. create_use (sample_protocol :: 16 protocol) 1000 [7] [5, 0] Seconds [10, 0] Counter True
      (make_state 0) = Inr (True, st') \<and>
     slots (st_storage st') [7] = Live \<lparr>e_type = Counter, e_counter = 5, e_buffer = [],
       e_ttl_type = Seconds, e_expires_at = 10000001000\<rparr> \<and> entries_ok st'"
proof -
  let ?E = "sample_protocol :: 16 protocol"
  have v: "le_to_word [5, 0] = (5 :: 16 word)" "le_to_word [10, 0] = (10 :: 16 word)"
    by (simp_all add: le_to_word_def)
  have ok: "entries_ok (make_state 0 :: 16 state)"
    by (simp add: entries_ok_def make_state_def)
  have ex: "get_expiration_point ?E 1000 Seconds [10, 0] = Inr 10000001000"
    using get_expiration_point_eq [of ?E "[10, 0]" 10 1000 Seconds] v by (simp add: read_value_def)
  have e: "make_entry ?E Counter [5, 0] Seconds 10000001000 =
      Inr \<lparr>e_type = Counter, e_counter = 5, e_buffer = [], e_ttl_type = Seconds,
        e_expires_at = 10000001000\<rparr>"
    using v by (simp add: make_entry_def read_value_def)
  have "\<exists>st'. create_use ?E 1000 [7] [5, 0] Seconds [10, 0] Counter True (make_state 0) = Inr (True, st')"
    using ex e by (simp add: create_use_def emplace_entry_def make_wrapper_def make_state_def
      storage_emplace_def storage_find_def split: prod.split)
  then obtain st' where use: "create_use ?E 1000 [7] [5, 0] Seconds [10, 0] Counter True (make_state 0) =
      Inr (True, st')" by blast
  have "slots (st_storage (make_state 0 :: 16 state)) [7] = Free"
    by (simp add: make_state_def slots_def storage_find_def)
  then show ?thesis
    using create_use_refines [OF ok use ex e] use by auto
qed

end
