(* ===== verification/Response_Builder.thy ===== *)
theory Response_Builder
  imports State Find_Create
begin

text \<open>
  \<open>response_builder_service\<close>: the answers that list entries, connections and channels. Each first
  measures what it is going to write and splits the items into fragments of at most 2048 bytes, grows
  the write buffer once, and then writes the fragments at a running offset. An item is first given as
  the operations that serialize it; \<open>Message.respond\<close> runs them with every access checked.
\<close>

definition max_fragment_size :: nat where "max_fragment_size = 2048"

definition le64 :: "nat \<Rightarrow> bytes" where
  "le64 n = word_to_le (of_nat n :: u64)"

lemma length_le64 [simp, size_simps]: "length (le64 n) = 8"
  by (simp add: le64_def)

section \<open>Fragments\<close>

text \<open>
  The measuring loop that the three handlers share: an item that does not fit closes the current
  fragment (even an empty one); a non-empty rest becomes the last fragment.
\<close>

fun fragment_loop :: "nat \<Rightarrow> ('a \<Rightarrow> nat) \<Rightarrow> 'a list \<Rightarrow> 'a list list \<times> 'a list \<times> nat
  \<Rightarrow> 'a list list \<times> 'a list \<times> nat" where
  "fragment_loop limit sz [] acc = acc"
| "fragment_loop limit sz (x # xs) (fragments, current, current_size) =
     fragment_loop limit sz xs
       (if current_size + sz x > limit then (fragments @ [current], [x], sz x)
        else (fragments, current @ [x], current_size + sz x))"

definition fragments_of :: "nat \<Rightarrow> ('a \<Rightarrow> nat) \<Rightarrow> 'a list \<Rightarrow> 'a list list" where
  "fragments_of limit sz xs =
     (let (fragments, current, _) = fragment_loop limit sz xs ([], [], 0)
      in if current \<noteq> [] then fragments @ [current] else fragments)"

definition total_size :: "('a \<Rightarrow> nat) \<Rightarrow> 'a list \<Rightarrow> nat" where
  "total_size sz xs = sum_list (map sz xs)"

lemma total_size_simps [simp]:
  "total_size sz [] = 0"
  "total_size sz (xs @ ys) = total_size sz xs + total_size sz ys"
  "total_size sz (x # xs) = sz x + total_size sz xs"
  by (simp_all add: total_size_def)

definition fragmenting :: "nat \<Rightarrow> ('a \<Rightarrow> nat) \<Rightarrow> 'a list list \<times> 'a list \<times> nat \<Rightarrow> bool" where
  "fragmenting limit sz = (\<lambda>(fs, cur, n). n = total_size sz cur \<and> n \<le> limit \<and>
     (\<forall>f \<in> set fs. f \<noteq> [] \<and> total_size sz f \<le> limit))"

lemma fragment_loop_invariant:
  assumes "\<forall>x \<in> set xs. sz x \<le> limit" "fragmenting limit sz acc"
  shows "fragmenting limit sz (fragment_loop limit sz xs acc)"
  using assms
proof (induction xs arbitrary: acc)
  case (Cons x xs)
  obtain fs cur n where acc: "acc = (fs, cur, n)" by (metis prod_cases3)
  let ?acc = "if n + sz x > limit then (fs @ [cur], [x], sz x) else (fs, cur @ [x], n + sz x)"
  have "cur \<noteq> []" if "n + sz x > limit"
    using that Cons.prems by (auto simp: acc fragmenting_def)
  then have "fragmenting limit sz ?acc"
    using Cons.prems by (auto simp: acc fragmenting_def)
  then show ?case using Cons by (simp add: acc)
qed simp

lemma fragments_of_concat: "concat (fragments_of limit sz xs) = xs"
proof -
  have "concat (fst r) @ fst (snd r) = concat fs @ cur @ xs"
    if "r = fragment_loop limit sz xs (fs, cur, n)" for r fs cur n
    using that by (induction xs arbitrary: fs cur n) auto
  from this [of "fragment_loop limit sz xs ([], [], 0)" "[]" "[]" 0] show ?thesis
    by (auto simp: fragments_of_def split: prod.splits)
qed

text \<open>The fragments of a listing are the items in order, none is empty and none is larger than
  the limit, as long as no single item is.\<close>

theorem fragments_partition:
  assumes "\<forall>x \<in> set xs. sz x \<le> limit"
  shows "concat (fragments_of limit sz xs) = xs \<and>
    (\<forall>f \<in> set (fragments_of limit sz xs). f \<noteq> [] \<and> total_size sz f \<le> limit)"
proof -
  obtain fs cur n where r: "fragment_loop limit sz xs ([], [], 0) = (fs, cur, n)"
    by (metis prod_cases3)
  have "fragmenting limit sz (fs, cur, n)"
    using fragment_loop_invariant [OF assms, of "([], [], 0)"] r by (simp add: fragmenting_def)
  then show ?thesis
    by (simp add: fragments_of_concat) (auto simp: fragments_of_def r fragmenting_def)
qed

theorem fragments_partition_witness:
  "fragments_of 5 id [2, 3, 4] = [[2, 3], [4 :: nat]] \<and> concat (fragments_of 5 id [2, 3, 4 :: nat]) = [2, 3, 4] \<and>
   total_size id (hd (fragments_of 5 id [2, 3, 4 :: nat])) \<le> 5"
  using fragments_partition [of "[2, 3, 4 :: nat]" id 5] by (simp add: fragments_of_def)

section \<open>A fragmented answer\<close>

text \<open>
  The status, the number of fragments, and for each fragment its index, its number of items, the
  items and what follows all of them (the names).
\<close>

fun fragment_ops ::
  "('a \<Rightarrow> write_op list) \<Rightarrow> ('a \<Rightarrow> write_op) \<Rightarrow> nat \<Rightarrow> 'a list list \<Rightarrow> write_op list" where
  "fragment_ops item name i [] = []"
| "fragment_ops item name i (f # fs) =
     [Emit [le64 i], Emit [le64 (length f)]] @ concat (map item f) @ map name f @
       fragment_ops item name (Suc i) fs"

definition fragmented_ops ::
  "('a \<Rightarrow> write_op list) \<Rightarrow> ('a \<Rightarrow> write_op) \<Rightarrow> 'a list list \<Rightarrow> write_op list" where
  "fragmented_ops item name fs =
     [Ref success_response, Emit [le64 (length fs)]] @ fragment_ops item name 1 fs"

text \<open>What the two loops of \<open>handle_fragmented_entries_response\<close> do. The measuring loop skips the
  entries marked expired and counts a read of each other one; \<open>item_size\<close> is what the serializer
  answers when it is asked to measure.\<close>

definition listed :: "'v::len storage \<Rightarrow> 'v storage" where
  "listed s = filter (\<lambda>(_, w). \<not> w_expired w) s"

definition count_listed :: "'v::len entry_wrapper \<Rightarrow> 'v entry_wrapper" where
  "count_listed w = (if w_expired w then w else on_metrics count_read w)"

definition handle_fragmented_entries_response ::
  "nat \<Rightarrow> nat \<Rightarrow> (nat \<times> 'v::len entry_wrapper \<Rightarrow> write_op list) \<Rightarrow> 'v state \<times> message
     \<Rightarrow> ('v state \<times> message) res" where
  "handle_fragmented_entries_response limit item_size serialize_entry = (\<lambda>(st, m).
     let s = storage_for_each count_listed (st_storage st);
         items = listed s;
         fs = fragments_of limit (\<lambda>(_, w). item_size + length (w_key w)) items;
         required = 8 + item_size * length items + length fs * 16
     in bind_res (respond required (fragmented_ops serialize_entry (\<lambda>(n, _). Ref (Entry_key n)) fs) m)
          (\<lambda>m'. Inr (st\<lparr>st_storage := s\<rparr>, m')))"

section \<open>The serializers of entries\<close>

definition key_length :: "'v::len entry_wrapper \<Rightarrow> byte" where
  "key_length w = of_nat (length (w_key w))"

definition list_measure :: "('v::len, 'x) protocol_scheme \<Rightarrow> nat" where
  "list_measure E = 1 + 8 + value_size E"

definition bytes_used :: "('v::len, 'x) protocol_scheme \<Rightarrow> 'v entry \<Rightarrow> 'v word" where
  "bytes_used E e = (if e_type e = Counter then of_nat (value_size E) else of_nat (length (e_buffer e)))"

definition write_list_entry_to_buffer ::
  "('v::len, 'x) protocol_scheme \<Rightarrow> nat \<times> 'v entry_wrapper \<Rightarrow> write_op list" where
  "write_list_entry_to_buffer E = (\<lambda>(n, w).
     [Emit [[key_length w]], Ref (Entry_type n), Ref (Entry_ttl_type n),
      Emit [word_to_le (e_expires_at (w_entry w))], Emit [word_to_le (bytes_used E (w_entry w))]])"

definition stats_measure :: nat where "stats_measure = 33"

definition write_stats_entry_to_buffer :: "nat \<times> 'v::len entry_wrapper \<Rightarrow> write_op list" where
  "write_stats_entry_to_buffer = (\<lambda>(n, w).
     [Emit [[key_length w]],
      Emit [word_to_le (em_reads_per_minute (w_metrics w))],
      Emit [word_to_le (em_writes_per_minute (w_metrics w))],
      Emit [word_to_le (em_reads_accumulator (w_metrics w))],
      Emit [word_to_le (em_writes_accumulator (w_metrics w))]])"

section \<open>What a serializer promises\<close>

text \<open>
  The handlers grow the buffer by what the serializer measured and then let it write: it has to
  write exactly that much, and to take no pointer into the buffer but those of its own writes.
\<close>

locale serializer =
  fixes ops :: "'a \<Rightarrow> write_op list" and item_size :: "'a \<Rightarrow> nat" and name :: "'a \<Rightarrow> write_op"
  assumes measured: "ops_size (ops x) + op_size (name x) = item_size x"
    and safe: "list_all op_ok (ops x)" "op_ok (name x)"
begin

lemma fragment_ops_size:
  "ops_size (fragment_ops ops name i fs) = 16 * length fs + sum_list (map item_size (concat fs))"
proof (induction fs arbitrary: i)
  case (Cons f fs)
  have "ops_size (concat (map ops f)) + ops_size (map name f) = sum_list (map item_size f)"
    by (induction f) (simp_all add: ops_size_def flip: measured)
  then show ?case by (simp add: Cons.IH)
qed simp

lemma fragmented_ops_size:
  "ops_size (fragmented_ops ops name fs) = 8 + 16 * length fs + sum_list (map item_size (concat fs))"
  by (simp add: fragmented_ops_def fragment_ops_size)

lemma fragmented_ops_ok: "list_all op_ok (fragmented_ops ops name fs)"
proof -
  have "list_all op_ok (fragment_ops ops name i fs)" for i
    using safe by (induction fs arbitrary: i) (auto simp: list_all_iff)
  then show ?thesis
    by (simp add: fragmented_ops_def success_response_def outside_buffer_def)
qed

text \<open>The bytes of a fragmented answer.\<close>

lemma fragmented_answer:
  assumes "unwritten m" "8 + 16 * length fs + sum_list (map item_size (concat fs)) \<le> n"
  shows "\<exists>m'. respond n (fragmented_ops ops name fs) m = Inr m' \<and>
    gather E s m' = opt_append (gather E s m) (ops_bytes E s (fragmented_ops ops name fs))"
  using assms by (intro respond_ok fragmented_ops_ok) (simp_all add: fragmented_ops_size)

end

interpretation list_entry: serializer "write_list_entry_to_buffer (E :: ('v::len, 'x) protocol_scheme)"
  "\<lambda>_. list_measure E" "\<lambda>(n, _). Ref (Entry_key n)"
  for E :: "('v::len, 'x) protocol_scheme"
  by unfold_locales
    (auto simp: write_list_entry_to_buffer_def list_measure_def outside_buffer_def split: prod.splits)

interpretation stats_entry: serializer write_stats_entry_to_buffer "\<lambda>_. stats_measure"
  "\<lambda>(n, _). Ref (Entry_key n)"
  by unfold_locales
    (auto simp: write_stats_entry_to_buffer_def stats_measure_def outside_buffer_def split: prod.splits)

section \<open>The answer on the wire\<close>

fun fragment_bytes :: "('a \<Rightarrow> bytes) \<Rightarrow> ('a \<Rightarrow> bytes) \<Rightarrow> nat \<Rightarrow> 'a list list \<Rightarrow> bytes" where
  "fragment_bytes item name i [] = []"
| "fragment_bytes item name i (f # fs) =
     le64 i @ le64 (length f) @ concat (map item f) @ concat (map name f) @
       fragment_bytes item name (Suc i) fs"

definition fragmented_bytes :: "('a \<Rightarrow> bytes) \<Rightarrow> ('a \<Rightarrow> bytes) \<Rightarrow> 'a list list \<Rightarrow> bytes" where
  "fragmented_bytes item name fs = [1] @ le64 (length fs) @ fragment_bytes item name 1 fs"

lemma seg_bytes_Static [simp]:
  "seg_bytes E s m success_response = Some [1]"
  "seg_bytes E s m failed_response = Some [0]"
  "outside_buffer success_response" "outside_buffer failed_response"
  by (simp_all add: seg_bytes_def success_response_def failed_response_def outside_buffer_def)

lemma ops_bytes_map:
  "(\<And>x. x \<in> set xs \<Longrightarrow> op_bytes E s (f x) = Some (g x)) \<Longrightarrow>
     ops_bytes E s (map f xs) = Some (concat (map g xs))"
  by (induction xs) auto

lemma ops_bytes_concat_map:
  "(\<And>x. x \<in> set xs \<Longrightarrow> ops_bytes E s (f x) = Some (g x)) \<Longrightarrow>
     ops_bytes E s (concat (map f xs)) = Some (concat (map g xs))"
  by (induction xs) (auto simp: ops_bytes_append)

lemma fragment_ops_bytes:
  assumes "\<And>x. x \<in> set (concat fs) \<Longrightarrow> ops_bytes E s (item x) = Some (ib x)"
    and "\<And>x. x \<in> set (concat fs) \<Longrightarrow> op_bytes E s (name x) = Some (nb x)"
  shows "ops_bytes E s (fragmented_ops item name fs) = Some (fragmented_bytes ib nb fs)"
proof -
  have "ops_bytes E s (fragment_ops item name i fs) = Some (fragment_bytes ib nb i fs)" for i
    using assms
  proof (induction fs arbitrary: i)
    case (Cons f fs)
    have "ops_bytes E s (fragment_ops item name (Suc i) fs) = Some (fragment_bytes ib nb (Suc i) fs)"
      by (rule Cons.IH) (use Cons.prems in auto)
    moreover have "ops_bytes E s (concat (map item f)) = Some (concat (map ib f))"
      by (rule ops_bytes_concat_map) (use Cons.prems in auto)
    moreover have "ops_bytes E s (map name f) = Some (concat (map nb f))"
      by (rule ops_bytes_map) (use Cons.prems in auto)
    ultimately show ?case by (simp add: ops_bytes_append)
  qed simp
  then show ?thesis by (simp add: fragmented_ops_def fragmented_bytes_def)
qed

end
