(* ===== verification/Update.thy ===== *)
theory Update
  imports Find_Create
begin

text \<open>
  \<open>update_service.cpp\<close> and \<open>update_command.cpp\<close>: changing the quota or the expiration point
  of an entry. The quota of a counter is what the rate limiter spends, so the main theorem is that a
  counter is never overspent.
\<close>

section \<open>update_service\<close>

definition apply_quota_change :: "'v::len request_update \<Rightarrow> 'v entry \<Rightarrow> bool \<times> 'v entry" where
  "apply_quota_change r e =
     (case upd_change r of
        Patch \<Rightarrow> (True, e\<lparr>e_counter := upd_value r\<rparr>)
      | Increase \<Rightarrow> (True, e\<lparr>e_counter := e_counter e + upd_value r\<rparr>)
      | Decrease \<Rightarrow>
          if upd_value r \<le> e_counter e
          then (True, e\<lparr>e_counter := e_counter e - upd_value r\<rparr>) else (False, e)
      | Change_unnamed b \<Rightarrow> (True, e))"

text \<open>The duration in nanoseconds; a TTL type without a name has no case and leaves 0.\<close>

definition duration_ns :: "ttl_types \<Rightarrow> 'v::len word \<Rightarrow> u64" where
  "duration_ns t v =
     (case t of
        Nanoseconds \<Rightarrow> ucast v
      | Milliseconds \<Rightarrow> ucast v * 1000000
      | Seconds \<Rightarrow> ucast v * 1000000000
      | Microseconds \<Rightarrow> ucast v * 1000
      | Minutes \<Rightarrow> ucast v * 60000000000
      | Hours \<Rightarrow> ucast v * 3600000000000
      | Ttl_unnamed b \<Rightarrow> 0)"

text \<open>The result carries the expiration points for which \<open>schedule_timer\<close> is dispatched.\<close>

definition apply_ttl_change ::
  "bytes \<Rightarrow> 'v::len request_update \<Rightarrow> u64 \<Rightarrow> bytes \<Rightarrow> 'v entry \<Rightarrow> bool \<times> 'v entry \<times> u64 list" where
  "apply_ttl_change scheduled_key r now key e =
     (let d = duration_ns (e_ttl_type e) (upd_value r);
          expires_at = (case upd_change r of
              Patch \<Rightarrow> now + d
            | Increase \<Rightarrow> e_expires_at e + d
            | Decrease \<Rightarrow> e_expires_at e - d
            | Change_unnamed b \<Rightarrow> e_expires_at e)
      in (True, e\<lparr>e_expires_at := expires_at\<rparr>, if scheduled_key = key then [expires_at] else []))"

section \<open>update_command\<close>

text \<open>The function given to \<open>storage_.modify\<close>.\<close>

definition update_entry ::
  "u64 \<Rightarrow> bytes \<Rightarrow> 'v::len request_update \<Rightarrow> 'v entry_wrapper \<Rightarrow> bool \<times> 'v entry \<times> u64 list" where
  "update_entry now scheduled_key r w =
     (case upd_attribute r of
        Quota \<Rightarrow>
          if e_type (w_entry w) = Counter
          then let (modified, e) = apply_quota_change r (w_entry w) in (modified, e, [])
          else (False, w_entry w, [])
      | Ttl \<Rightarrow> apply_ttl_change scheduled_key r now (w_key w) (w_entry w)
      | Attribute_unnamed b \<Rightarrow> (False, w_entry w, []))"

definition status :: "bool \<Rightarrow> seg" where
  "status ok = (if ok then success_response else failed_response)"

definition update_command ::
  "('v::len, 'x) protocol_scheme \<Rightarrow> u64 \<Rightarrow> bytes \<Rightarrow> uuid \<Rightarrow> 'v state \<times> message
     \<Rightarrow> ('v state \<times> message) res" where
  "update_command E now view i = (\<lambda>(st, m).
     bind_res (of_option Bad_request (parse_update E view)) (\<lambda>r.
       case find_or_fail st (upd_key r) of
         (None, st1) \<Rightarrow> Inr (st1, emplace_back (status False) m)
       | (Some (n, w), st1) \<Rightarrow>
           let f = update_entry now (st_scheduled_key st1) r;
               (modified, _, tasks) = f w;
               st2 = on_storage (storage_modify n (\<lambda>w. w\<lparr>w_entry := fst (snd (f w))\<rparr>)) st1;
               st3 = (if modified then on_storage (storage_modify n (on_metrics count_write)) st2
                      else st2)
           in Inr (st3\<lparr>st_tasks := st_tasks st3 @ tasks\<rparr>, emplace_back (status modified) m)))"

lemma status_inj [simp]: "status a = status b \<longleftrightarrow> a = b"
  by (simp add: status_def success_response_def failed_response_def)

lemma apply_quota_change_fields [simp]:
  "e_type (snd (apply_quota_change r e)) = e_type e"
  "e_buffer (snd (apply_quota_change r e)) = e_buffer e"
  "e_ttl_type (snd (apply_quota_change r e)) = e_ttl_type e"
  "e_expires_at (snd (apply_quota_change r e)) = e_expires_at e"
  by (simp_all add: apply_quota_change_def split: change_types.split)

section \<open>Specification\<close>

text \<open>
  What an update does to the entry a client sees, over the integers: the new quota, \<open>None\<close> when
  it would be negative, and the new expiration point. The results are cut to their width when
  stored.
\<close>

fun new_quota :: "change_types \<Rightarrow> int \<Rightarrow> int \<Rightarrow> int option" where
  "new_quota Patch q v = Some v"
| "new_quota Increase q v = Some (q + v)"
| "new_quota Decrease q v = (if q - v < 0 then None else Some (q - v))"
| "new_quota (Change_unnamed b) q v = Some q"

fun new_expiration :: "change_types \<Rightarrow> int \<Rightarrow> int \<Rightarrow> int \<Rightarrow> int" where
  "new_expiration Patch now x d = now + d"
| "new_expiration Increase now x d = x + d"
| "new_expiration Decrease now x d = x - d"
| "new_expiration (Change_unnamed b) now x d = x"

fun ttl_ns :: "ttl_types \<Rightarrow> int \<Rightarrow> int" where
  "ttl_ns (Ttl_unnamed b) v = 0"
| "ttl_ns t v = v * int (unit_ns t)"

definition update_spec :: "u64 \<Rightarrow> 'v::len request_update \<Rightarrow> 'v entry \<Rightarrow> bool \<times> 'v entry" where
  "update_spec now r e =
     (case upd_attribute r of
        Quota \<Rightarrow>
          (case (if e_type e = Counter
                 then new_quota (upd_change r) (uint (e_counter e)) (uint (upd_value r)) else None) of
             None \<Rightarrow> (False, e)
           | Some q \<Rightarrow> (True, e\<lparr>e_counter := word_of_int q\<rparr>))
      | Ttl \<Rightarrow> (True, e\<lparr>e_expires_at := word_of_int (new_expiration (upd_change r) (uint now)
            (uint (e_expires_at e)) (ttl_ns (e_ttl_type e) (uint (upd_value r))))\<rparr>)
      | Attribute_unnamed b \<Rightarrow> (False, e))"

lemma duration_ns_eq: "duration_ns t v = word_of_int (ttl_ns t (uint v))"
proof -
  have u: "(ucast v :: u64) * of_nat n = word_of_int (uint v * int n)" for n
    by (simp only: ucast_eq of_int_mult of_int_of_nat_eq)
  show ?thesis
    using u [of 1] u [of 1000] u [of 1000000] u [of 1000000000] u [of 60000000000] u [of 3600000000000]
    by (cases t) (simp_all only: duration_ns_def ttl_types.simps ttl_ns.simps unit_ns.simps
        of_nat_numeral of_nat_1 mult_1_right of_int_0)
qed
lemma apply_quota_change_spec:
  "apply_quota_change r e =
     (case new_quota (upd_change r) (uint (e_counter e)) (uint (upd_value r)) of
        None \<Rightarrow> (False, e) | Some q \<Rightarrow> (True, e\<lparr>e_counter := word_of_int q\<rparr>))"
  by (cases "upd_change r") (auto simp: apply_quota_change_def word_le_def)

lemma apply_ttl_change_spec:
  "fst (snd (apply_ttl_change k r now k' e)) =
    e\<lparr>e_expires_at := word_of_int (new_expiration (upd_change r) (uint now)
        (uint (e_expires_at e)) (ttl_ns (e_ttl_type e) (uint (upd_value r))))\<rparr>"
  by (cases "upd_change r") (simp_all add: apply_ttl_change_def Let_def duration_ns_eq)

lemma update_entry_spec:
  "fst (update_entry now k r w) = fst (update_spec now r (w_entry w))"
  "fst (snd (update_entry now k r w)) = snd (update_spec now r (w_entry w))"
proof -
  have "fst (apply_ttl_change k r now (w_key w) (w_entry w))"
    by (simp add: apply_ttl_change_def Let_def)
  then show "fst (update_entry now k r w) = fst (update_spec now r (w_entry w))"
    by (simp add: update_entry_def update_spec_def apply_quota_change_spec
        split: attribute_types.split option.split)
  show "fst (snd (update_entry now k r w)) = snd (update_spec now r (w_entry w))"
    by (simp add: update_entry_def update_spec_def apply_quota_change_spec
        apply_ttl_change_spec split: attribute_types.split option.split)
qed

lemma wrapper_slot_entry:
  "\<not> w_expired w \<Longrightarrow> wrapper_slot (w\<lparr>w_entry := e\<rparr>) = Live e"
  "\<not> w_expired w \<Longrightarrow> wrapper_slot w = Live (w_entry w)"
  by (simp_all add: wrapper_slot_def)

lemma wrapper_slot_on_metrics [simp]: "wrapper_slot (on_metrics f w) = wrapper_slot w"
  by (simp add: wrapper_slot_def)

lemma skeleton_on_metrics [simp]: "skeleton (storage_modify n (on_metrics f) s) = skeleton s"
  by (rule skeleton_modify) simp

lemma entries_ok_skeleton:
  assumes "skeleton (st_storage st') = skeleton (st_storage st)" "st_next_node st' = st_next_node st"
  shows "entries_ok st' = entries_ok st"
  using storage_ok_skeleton [OF assms(1)] nodes_skeleton [OF assms(1)] assms(2)
  by (simp add: entries_ok_def)

lemma entries_ok_modify:
  assumes "entries_ok st" "\<And>w. w_key (f w) = w_key w"
  shows "entries_ok (on_storage (storage_modify n f) st)"
  using assms storage_modify_ok [of "st_storage st" f n] by (simp add: entries_ok_def)

lemma entries_ok_erase: "entries_ok st \<Longrightarrow> entries_ok (on_storage (storage_erase n) st)"
  by (simp add: entries_ok_def storage_erase_ok) (simp add: storage_erase_def)

text \<open>Reading the outcome of one update off the slots.\<close>

lemma update_command_slots:
  fixes E :: "('v::len, 'x) protocol_scheme"
  assumes "entries_ok st" "parse_update E view = Some r"
  shows "\<exists>st'. update_command E now view i (st, m) = Inr (st', emplace_back (status
        (case live_entry (slots (st_storage st) (upd_key r)) of
           None \<Rightarrow> False | Some e \<Rightarrow> fst (update_spec now r e))) m) \<and>
      slots (st_storage st') = (case live_entry (slots (st_storage st) (upd_key r)) of
           None \<Rightarrow> slots (st_storage st)
         | Some e \<Rightarrow> (slots (st_storage st))(upd_key r := Live (snd (update_spec now r e)))) \<and>
      entries_ok st'"
proof (cases "fst (find_or_fail st (upd_key r))")
  case None
  then have "find_or_fail st (upd_key r) = (None, st)"
    using find_or_fail_None(2) by (metis prod.collapse)
  moreover have "live_entry (slots (st_storage st) (upd_key r)) = None"
    using None find_or_fail_None(1) by blast
  ultimately show ?thesis using assms by (simp add: update_command_def)
next
  case (Some x)
  then obtain n w st1 where f: "find_or_fail st (upd_key r) = (Some (n, w), st1)"
    by (metis prod.collapse)
  have s: "storage_ok (st_storage st)" using assms(1) by (simp add: entries_ok_def)
  note f' = find_or_fail_Some [OF f s]
  have st1: "entries_ok st1" "storage_ok (st_storage st1)" "slots (st_storage st1) = slots (st_storage st)"
  proof -
    show e: "entries_ok st1" unfolding f'(5) by (rule entries_ok_modify [OF assms(1)]) simp
    then show "storage_ok (st_storage st1)" by (simp add: entries_ok_def)
    show "slots (st_storage st1) = slots (st_storage st)"
      unfolding f'(5) by (intro slots_skeleton) simp
  qed
  define g where "g = (\<lambda>w. w\<lparr>w_entry := fst (snd (update_entry now (st_scheduled_key st1) r w))\<rparr>)"
  have key: "w_key (g w) = w_key w" for w by (simp add: g_def)
  define st2 where "st2 = on_storage (storage_modify n g) st1"
  have ok2: "entries_ok st2" unfolding st2_def by (rule entries_ok_modify [OF st1(1) key])
  have sl2: "slots (st_storage st2) =
      (slots (st_storage st))(upd_key r := Live (snd (update_spec now r (w_entry w))))"
    using slots_modify [where f = g, OF st1(2) f'(1) key] f'(3) st1(3)
    by (simp add: st2_def g_def wrapper_slot_entry update_entry_spec)
  obtain mo e tasks where u: "update_entry now (st_scheduled_key st1) r w = (mo, e, tasks)"
    by (cases "update_entry now (st_scheduled_key st1) r w")
  define st3 where
    "st3 = (if mo then on_storage (storage_modify n (on_metrics count_write)) st2 else st2)"
  have sk: "skeleton (st_storage st3) = skeleton (st_storage st2)" "st_next_node st3 = st_next_node st2"
    by (simp_all add: st3_def)
  let ?st = "st3\<lparr>st_tasks := st_tasks st3 @ tasks\<rparr>"
  have "update_command E now view i (st, m) = Inr (?st, emplace_back (status mo) m)"
    using assms(2) f u by (simp add: update_command_def st3_def st2_def g_def)
  moreover have "mo = fst (update_spec now r (w_entry w))"
    using update_entry_spec(1) [of now "st_scheduled_key st1" r w] u by simp
  moreover have "entries_ok ?st"
    using entries_ok_skeleton [OF sk] ok2 by (simp add: entries_ok_def)
  moreover have "slots (st_storage ?st) = slots (st_storage st2)"
    using slots_skeleton [OF sk(1)] by simp
  ultimately show ?thesis using sl2 f'(2) by simp
qed

text \<open>C1: \<open>UPDATE\<close> meets its specification. A key that no client can see is answered with
  failure and nothing changes; otherwise the answer and the entry left under the key are those of
  \<open>update_spec\<close>: the quota moves by the value and refuses to go below zero, the expiration point
  moves by the value in the entry's own unit, and every other key keeps its slot.\<close>

theorem update_command_refines:
  fixes E :: "('v::len, 'x) protocol_scheme"
  assumes "entries_ok st" "parse_update E view = Some r"
  shows "\<exists>st'. update_command E now view i (st, m) = Inr (st', emplace_back (status
        (case live_entry (slots (st_storage st) (upd_key r)) of
           None \<Rightarrow> False | Some e \<Rightarrow> fst (update_spec now r e))) m) \<and>
      slots (st_storage st') = (case live_entry (slots (st_storage st) (upd_key r)) of
           None \<Rightarrow> slots (st_storage st)
         | Some e \<Rightarrow> (slots (st_storage st))(upd_key r := Live (snd (update_spec now r e)))) \<and>
      entries_ok st'"
  by (rule update_command_slots [OF assms])

section \<open>Spending a quota\<close>

text \<open>The sum of the values that the answers say were taken from the counter under \<open>k\<close>.\<close>

fun spent :: "('v::len, 'x) protocol_scheme \<Rightarrow> bytes \<Rightarrow> (u64 \<times> bytes) list \<Rightarrow> seg list \<Rightarrow> nat" where
  "spent E k ((now, view) # reqs) (a # as) =
     (case parse_update E view of
        Some r \<Rightarrow> if upd_key r = k \<and> a = success_response then unat (upd_value r) else 0
      | None \<Rightarrow> 0) + spent E k reqs as"
| "spent E k _ _ = 0"

definition spends :: "('v::len, 'x) protocol_scheme \<Rightarrow> bytes \<Rightarrow> u64 \<times> bytes \<Rightarrow> bool" where
  "spends E k req = (case parse_update E (snd req) of
       None \<Rightarrow> False
     | Some r \<Rightarrow> upd_key r = k \<longrightarrow> upd_attribute r = Quota \<and> upd_change r = Decrease)"

lemma update_spec_decrease:
  assumes "upd_attribute r = Quota" "upd_change r = Decrease" "e_type e = Counter"
  shows "e_type (snd (update_spec now r e)) = Counter"
    and "unat (e_counter (snd (update_spec now r e))) +
      (if fst (update_spec now r e) then unat (upd_value r) else 0) = unat (e_counter e)"
proof -
  let ?q = "e_counter e" and ?v = "upd_value r"
  have spec: "update_spec now r e =
      (if ?v \<le> ?q then (True, e\<lparr>e_counter := ?q - ?v\<rparr>) else (False, e))"
    using assms by (simp add: update_spec_def word_le_def)
  show "e_type (snd (update_spec now r e)) = Counter" using assms(3) by (simp add: spec)
  show "unat (e_counter (snd (update_spec now r e))) +
      (if fst (update_spec now r e) then unat ?v else 0) = unat ?q"
    by (simp add: spec unat_sub word_le_nat_alt)
qed

lemma success_response_status [simp]: "status a = success_response \<longleftrightarrow> a"
  by (simp add: status_def success_response_def failed_response_def)

lemma updates_spend:
  fixes E :: "('v::len, 'x) protocol_scheme"
  assumes "entries_ok st" "slots (st_storage st) k = Live e" "e_type e = Counter"
    and "list_all (spends E k) reqs"
  shows "\<exists>st' m' as e'.
      fold_res (\<lambda>(now, view). update_command E now view i) reqs (st, m) = Inr (st', m') \<and>
      batch m' = batch m @ as \<and> length as = length reqs \<and>
      slots (st_storage st') k = Live e' \<and> e_type e' = Counter \<and>
      unat (e_counter e') + spent E k reqs as = unat (e_counter e)"
  using assms
proof (induction reqs arbitrary: st m e)
  case Nil
  then show ?case by auto
next
  case (Cons req reqs)
  obtain now view where req: "req = (now, view)" by (cases req)
  with Cons.prems obtain r where r: "parse_update E view = Some r"
    "upd_key r = k \<Longrightarrow> upd_attribute r = Quota \<and> upd_change r = Decrease"
    by (auto simp: spends_def split: option.splits)
  obtain st1 a where st1: "update_command E now view i (st, m) = Inr (st1, emplace_back (status a) m)"
    "a = (case live_entry (slots (st_storage st) (upd_key r)) of
       None \<Rightarrow> False | Some e \<Rightarrow> fst (update_spec now r e))"
    "slots (st_storage st1) = (case live_entry (slots (st_storage st) (upd_key r)) of
       None \<Rightarrow> slots (st_storage st)
     | Some e \<Rightarrow> (slots (st_storage st))(upd_key r := Live (snd (update_spec now r e))))"
    "entries_ok st1"
    using update_command_slots [OF Cons.prems(1) r(1), of now i m] by blast
  define e1 where "e1 = (if upd_key r = k then snd (update_spec now r e) else e)"
  have e1: "slots (st_storage st1) k = Live e1" "e_type e1 = Counter"
    "unat (e_counter e1) + (if upd_key r = k \<and> a then unat (upd_value r) else 0) = unat (e_counter e)"
    using st1(2,3) Cons.prems(2,3) r(2) update_spec_decrease [of r e now]
    by (auto simp: e1_def split: option.splits)
  obtain st' m' as e' where rest:
    "fold_res (\<lambda>(now, view). update_command E now view i) reqs (st1, emplace_back (status a) m) = Inr (st', m')"
    "batch m' = batch (emplace_back (status a) m) @ as" "length as = length reqs"
    "slots (st_storage st') k = Live e'" "e_type e' = Counter"
    "unat (e_counter e') + spent E k reqs as = unat (e_counter e1)"
    using Cons.IH [OF st1(4) e1(1,2), of "emplace_back (status a) m"] Cons.prems(4) by auto
  have "unat (e_counter e') + spent E k (req # reqs) (status a # as) = unat (e_counter e)"
    using rest(6) e1(3) r(1) req by (simp split: if_splits)
  with rest req st1(1) show ?case
    by (intro exI [of _ st'] exI [of _ m'] exI [of _ "status a # as"] exI [of _ e']) simp
qed

text \<open>C14: A quota is never overspent. Run any sequence of updates in which the counter under
  \<open>k\<close> is only decreased, mixed with arbitrary updates of other keys: each is answered, and the
  values of the decreases answered with success, added to the quota that is left, are exactly the
  quota at the start.\<close>

theorem quota_not_overspent:
  fixes E :: "('v::len, 'x) protocol_scheme"
  assumes "entries_ok st" "slots (st_storage st) k = Live e" "e_type e = Counter"
    and "list_all (spends E k) reqs"
  shows "\<exists>st' m' e'.
      fold_res (\<lambda>(now, view). update_command E now view i) reqs (st, new_message) = Inr (st', m') \<and>
      length (batch m') = length reqs \<and> slots (st_storage st') k = Live e' \<and>
      unat (e_counter e') + spent E k reqs (batch m') = unat (e_counter e)"
  using updates_spend [OF assms, of i new_message] by (auto simp: new_message_def)

section \<open>Witnesses\<close>

text \<open>\<open>UPDATE quota decrease 3\<close> on \<open>[7]\<close>, in the layout of the sample protocol.\<close>

definition spend_three :: bytes where "spend_three = [3, 0, 2, 3, 0, 1, 7]"

lemma parse_spend_three: "parse_update (sample_protocol :: 16 protocol) spend_three =
    Some \<lparr>upd_attribute = Quota, upd_change = Decrease, upd_value = 3, upd_key = [7]\<rparr>"
  by (simp add: sample_protocol_def spend_three_def field_def byte_at_def sample_attribute_def
      sample_change_def le_to_word_def)

theorem update_command_refines_witness:
  "\<exists>st'. update_command (sample_protocol :: 16 protocol) 9 spend_three 1 (one_counter 5, new_message) =
     Inr (st', emplace_back (status True) new_message) \<and>
     slots (st_storage st') [7] = Live \<lparr>e_type = Counter, e_counter = 2, e_buffer = [],
        e_ttl_type = Seconds, e_expires_at = 5000\<rparr>"
  using update_command_refines [OF one_counter_ok(1) [of 5] parse_spend_three, of 9 1 new_message]
  by (auto simp: one_counter_ok(2) update_spec_def)

theorem quota_not_overspent_witness:
  "\<exists>st' m' e'. fold_res (\<lambda>(now, view). update_command (sample_protocol :: 16 protocol) now view 1)
       [(8, spend_three), (9, spend_three)] (one_counter 5, new_message) = Inr (st', m') \<and>
     length (batch m') = Suc (Suc 0) \<and> slots (st_storage st') [7] = Live e' \<and>
     unat (e_counter e') + spent (sample_protocol :: 16 protocol) [7]
       [(8, spend_three), (9, spend_three)] (batch m') = 5"
  using quota_not_overspent [OF one_counter_ok(1) one_counter_ok(2) [of 5], where i = 1 and
      E = "sample_protocol :: 16 protocol" and reqs = "[(8, spend_three), (9, spend_three)]"]
  by (simp add: spends_def parse_spend_three)

end
