(* ===== verification/Commands_Entries.thy ===== *)
theory Commands_Entries
  imports Response_Builder Update
begin

text \<open>
  The commands on entries: \<open>insert\<close>, \<open>set\<close>, \<open>query\<close> (which also answers \<open>GET\<close>),
  \<open>purge\<close>, \<open>stat\<close>, \<open>list\<close> and \<open>stats\<close>. Every command takes the clock, the type byte,
  the request's bytes, the id of the connection, the state and the message under construction.
\<close>

type_synonym 'v command =
  "u64 \<Rightarrow> byte \<Rightarrow> bytes \<Rightarrow> uuid \<Rightarrow> 'v state \<times> message \<Rightarrow> ('v state \<times> message) res"

section \<open>insert and set\<close>

definition insert_command :: "('v::len, 'x) protocol_scheme \<Rightarrow> 'v command" where
  "insert_command E now ty view i = (\<lambda>(st, m).
     bind_res (of_option Bad_request (parse_insert E view)) (\<lambda>r.
     bind_res (create_use E now (ins_key r) (ins_quota r) (ins_ttl_type r) (ins_ttl r) Counter True st)
       (\<lambda>(inserted, st'). Inr (st', emplace_back (status inserted) m))))"

definition set_command :: "('v::len, 'x) protocol_scheme \<Rightarrow> 'v command" where
  "set_command E now ty view i = (\<lambda>(st, m).
     bind_res (of_option Bad_request (parse_set E view)) (\<lambda>r.
     bind_res (create_use E now (set_key r) (set_value r) (set_ttl_type r) (set_ttl r) Raw False st)
       (\<lambda>(inserted, st'). Inr (st', emplace_back (status inserted) m))))"

section \<open>query and get\<close>

definition query_command :: "('v::len, 'x) protocol_scheme \<Rightarrow> 'v command" where
  "query_command E now ty view i = (\<lambda>(st, m).
     bind_res (of_option Bad_request (parse_query E view)) (\<lambda>key.
       case find_or_fail st key of
         (None, st1) \<Rightarrow> Inr (st1, emplace_back failed_response m)
       | (Some (n, w), st1) \<Rightarrow>
           let e = w_entry w; ttl = get_ttl now (e_expires_at e) (e_ttl_type e) :: 'v word
           in bind_res
                (if ty = request_code E Query_req
                 then respond (value_size E * 2)
                        [Ref success_response, Emit [word_to_le (e_counter e)], Ref (Entry_ttl_type n),
                         Emit [word_to_le ttl]] m
                 else respond (value_size E * 2 + length (e_buffer e))
                        [Ref success_response, Ref (Entry_ttl_type n), Emit [word_to_le ttl],
                         Emit [word_to_le (of_nat (length (e_buffer e)) :: 'v word)],
                         Emit [e_buffer e]] m)
                (\<lambda>m'. Inr (st1, m'))))"

section \<open>purge\<close>

definition purge_command :: "('v::len, 'x) protocol_scheme \<Rightarrow> 'v command" where
  "purge_command E now ty view i = (\<lambda>(st, m).
     bind_res (of_option Bad_request (parse_purge E view)) (\<lambda>key.
       case storage_find key (st_storage st) of
         None \<Rightarrow> Inr (st, emplace_back (status False) m)
       | Some (n, w) \<Rightarrow>
           let erased = \<not> w_expired w;
               st1 = on_storage (storage_modify n (on_metrics count_read)) st;
               st2 = (if erased then on_storage (storage_erase n) st1 else st1)
           in Inr (st2, emplace_back (status erased) m)))"

section \<open>stat, list and stats\<close>

definition stat_command :: "('v::len, 'x) protocol_scheme \<Rightarrow> 'v command" where
  "stat_command E now ty view i = (\<lambda>(st, m).
     bind_res (of_option Bad_request (parse_stat E view)) (\<lambda>key.
       case find_or_fail st key of
         (None, st1) \<Rightarrow> Inr (st1, emplace_back failed_response m)
       | (Some (n, w), st1) \<Rightarrow>
           bind_res (respond (8 * 4)
             [Ref success_response,
              Emit [word_to_le (em_reads_per_minute (w_metrics w))],
              Emit [word_to_le (em_writes_per_minute (w_metrics w))],
              Emit [word_to_le (em_reads_accumulator (w_metrics w))],
              Emit [word_to_le (em_writes_accumulator (w_metrics w))]] m)
             (\<lambda>m'. Inr (st1, m'))))"

definition list_command :: "('v::len, 'x) protocol_scheme \<Rightarrow> 'v command" where
  "list_command E now ty view i =
     handle_fragmented_entries_response 2048 (list_measure E) (write_list_entry_to_buffer E)"

definition stats_command :: "('v::len, 'x) protocol_scheme \<Rightarrow> 'v command" where
  "stats_command E now ty view i =
     handle_fragmented_entries_response 2048 stats_measure write_stats_entry_to_buffer"

section \<open>Framing facts\<close>

lemma respond_answer:
  assumes "unwritten m" "ops_size ops \<le> n" "list_all op_ok ops" "ops_bytes E s ops = Some bs"
  shows "\<exists>m'. respond n ops m = Inr m' \<and> gather E s m' = opt_append (gather E s m) (Some bs)"
  using respond_ok [OF assms(1-3), of E s] assms(4) by simp

lemma storage_find_node:
  assumes "storage_ok s" "storage_find k s = Some (n, w)"
  shows "storage_node n s = Some w"
  using storage_find_SomeD [OF assms(2)] storage_node_eq_Some [OF assms(1)] by blast

lemma count_listed_fields [simp]:
  "w_key (count_listed w) = w_key w" "w_entry (count_listed w) = w_entry w"
  "w_expired (count_listed w) = w_expired w"
  by (simp_all add: count_listed_def)

lemma gather_status:
  "gather E s (emplace_back (status ok) m) = opt_append (gather E s m) (Some [if ok then 1 else 0])"
  by (simp add: gather_emplace_back status_def)

section \<open>QUERY and GET\<close>

definition query_answer ::
  "('v::len, 'x) protocol_scheme \<Rightarrow> u64 \<Rightarrow> byte \<Rightarrow> 'v entry option \<Rightarrow> bytes" where
  "query_answer E now ty x = (case x of
       None \<Rightarrow> [0]
     | Some e \<Rightarrow>
         let ttl = word_to_le (get_ttl now (e_expires_at e) (e_ttl_type e) :: 'v word)
         in if ty = request_code E Query_req
            then [1] @ word_to_le (e_counter e) @ [ttl_code E (e_ttl_type e)] @ ttl
            else [1] @ [ttl_code E (e_ttl_type e)] @ ttl @
              word_to_le (of_nat (length (e_buffer e)) :: 'v word) @ e_buffer e)"

lemma find_or_fail_cases [consumes 1, case_names hidden found]:
  assumes "entries_ok st"
  obtains (hidden) "find_or_fail st k = (None, st)" "live_entry (slots (st_storage st) k) = None"
  | (found) n w st1 where "find_or_fail st k = (Some (n, w), st1)"
      "live_entry (slots (st_storage st) k) = Some (w_entry w)" "storage_node n (st_storage st1) = Some w"
      "slots (st_storage st1) = slots (st_storage st)" "entries_ok st1" "w_key w = k"
      "storage_find k (st_storage st1) = Some (n, w)" "\<not> w_expired w"
proof (cases "fst (find_or_fail st k)")
  case None
  then have "find_or_fail st k = (None, st)"
    using find_or_fail_None(2) by (metis prod.collapse)
  moreover have "live_entry (slots (st_storage st) k) = None"
    using None find_or_fail_None(1) by blast
  ultimately show thesis by (rule hidden)
next
  case (Some x)
  then obtain n w st1 where f: "find_or_fail st k = (Some (n, w), st1)"
    by (metis prod.collapse)
  have s: "storage_ok (st_storage st)" using assms by (simp add: entries_ok_def)
  note f' = find_or_fail_Some [OF f s]
  have e: "entries_ok st1" unfolding f'(5) by (rule entries_ok_modify [OF assms]) simp
  then have s1: "storage_ok (st_storage st1)" by (simp add: entries_ok_def)
  have "slots (st_storage st1) = slots (st_storage st)"
    unfolding f'(5) by (intro slots_skeleton) simp
  then show thesis
    using found [OF f _ storage_find_node [OF s1 f'(1)]] f' e by simp
qed

lemma query_command_message:
  fixes E :: "('v::len, 'x) protocol_scheme"
  assumes "entries_ok st" "parse_query E view = Some k" "unwritten m"
  shows "\<exists>st' m'. query_command E now ty view i (st, m) = Inr (st', m') \<and>
    slots (st_storage st') = slots (st_storage st) \<and> entries_ok st' \<and>
    gather E (st_storage st') m' = opt_append (gather E (st_storage st') m)
      (Some (query_answer E now ty (live_entry (slots (st_storage st) k))))"
  using assms(1)
proof (cases rule: find_or_fail_cases [where k = k])
  case hidden
  then show ?thesis
    using assms by (simp add: query_command_def query_answer_def gather_emplace_back)
next
  case (found n w st1)
  let ?e = "w_entry w" and ?s = "st_storage st1"
  let ?ttl = "get_ttl now (e_expires_at ?e) (e_ttl_type ?e) :: 'v word"
  let ?query = "[Ref success_response, Emit [word_to_le (e_counter ?e)], Ref (Entry_ttl_type n),
      Emit [word_to_le ?ttl]]"
  let ?get = "[Ref success_response, Ref (Entry_ttl_type n), Emit [word_to_le ?ttl],
      Emit [word_to_le (of_nat (length (e_buffer ?e)) :: 'v word)], Emit [e_buffer ?e]]"
  have ttl: "seg_bytes E ?s new_message (Entry_ttl_type n) = Some [ttl_code E (e_ttl_type ?e)]"
    using found(3) by (simp add: seg_bytes_def)
  have "\<exists>m'. respond (value_size E * 2) ?query m = Inr m' \<and> gather E ?s m' = opt_append (gather E ?s m)
      (Some ([1] @ word_to_le (e_counter ?e) @ [ttl_code E (e_ttl_type ?e)] @ word_to_le ?ttl))"
    using ttl by (intro respond_answer assms(3)) simp_all
  moreover have "\<exists>m'. respond (value_size E * 2 + length (e_buffer ?e)) ?get m = Inr m' \<and>
      gather E ?s m' = opt_append (gather E ?s m)
      (Some ([1] @ [ttl_code E (e_ttl_type ?e)] @ word_to_le ?ttl @
         word_to_le (of_nat (length (e_buffer ?e)) :: 'v word) @ e_buffer ?e))"
    using ttl by (intro respond_answer assms(3)) simp_all
  ultimately show ?thesis
    using found assms(2)
    by (auto simp: query_command_def query_answer_def Let_def split: if_splits)
qed

text \<open>\<open>QUERY\<close> and \<open>GET\<close>. Both answer a failure for a key that no client can see; for a
  visible entry the bytes on the wire are the status, the quota, the unit and the remaining TTL
  (\<open>QUERY\<close>), or the status, the unit, the remaining TTL, the length and the stored value
  (\<open>GET\<close>). Every write stays within the buffer and no slot changes.\<close>

theorem query_command_answers:
  fixes E :: "('v::len, 'x) protocol_scheme"
  assumes "entries_ok st" "parse_query E view = Some k" "unwritten m"
  shows "\<exists>st' m'. query_command E now ty view i (st, m) = Inr (st', m') \<and>
    slots (st_storage st') = slots (st_storage st) \<and> entries_ok st' \<and>
    gather E (st_storage st') m' = opt_append (gather E (st_storage st') m)
      (Some (query_answer E now ty (live_entry (slots (st_storage st) k))))"
  by (rule query_command_message [OF assms])

section \<open>SET then GET\<close>

text \<open>A \<open>SET\<close> that can be read back: afterwards the key holds a visible entry with what was set.\<close>

lemma set_command_stores:
  fixes E :: "('v::len, 'x) protocol_scheme"
  assumes "entries_ok st" "parse_set E view = Some r"
    and "get_expiration_point E now (set_ttl_type r) (set_ttl r) = Inr ex"
    and "case slots (st_storage st) (set_key r) of
      Free \<Rightarrow> True | Live e \<Rightarrow> e_type e \<noteq> Counter | Lingering e \<Rightarrow> False"
    and "set_command E now ty view i (st, m) = Inr (st1, m1)"
  obtains e where "m1 = emplace_back success_response m" "entries_ok st1"
    "slots (st_storage st1) = (slots (st_storage st))(set_key r := Live e)"
    "e_buffer e = set_value r" "e_ttl_type e = set_ttl_type r" "e_expires_at e = ex"
proof -
  let ?k = "set_key r"
  define fresh where "fresh = (\<lparr>e_type = Raw, e_counter = 0, e_buffer = set_value r,
      e_ttl_type = set_ttl_type r, e_expires_at = ex\<rparr> :: 'v entry)"
  have e: "make_entry E Raw (set_value r) (set_ttl_type r) ex = Inr fresh"
    by (simp add: make_entry_def fresh_def)
  obtain ok where use: "create_use E now ?k (set_value r) (set_ttl_type r) (set_ttl r) Raw False st = Inr (ok, st1)"
    "m1 = emplace_back (status ok) m"
    using assms(2,5) by (auto simp: set_command_def res_simps)
  obtain slot where slot: "create_spec False fresh (rewritten (set_value r) (set_ttl_type r) ex)
      (slots (st_storage st) ?k) = (ok, slot)" "slots (st_storage st1) = (slots (st_storage st))(?k := slot)"
    "entries_ok st1"
    using create_use_slots [OF assms(1) use(1) assms(3) e] by blast
  obtain e' where "ok" "slot = Live e'" "e_buffer e' = set_value r" "e_ttl_type e' = set_ttl_type r"
    "e_expires_at e' = ex"
    using slot(1) assms(4) by (cases "slots (st_storage st) ?k") (auto simp: fresh_def rewritten_def)
  then show thesis using that [of e'] use(2) slot(2,3) by (simp add: status_def)
qed

text \<open>What \<open>GET\<close> answers with for an entry.\<close>

definition get_answer :: "('v::len, 'x) protocol_scheme \<Rightarrow> u64 \<Rightarrow> bytes \<Rightarrow> ttl_types \<Rightarrow> u64 \<Rightarrow> bytes" where
  "get_answer E now value ttl_type expires_at =
     [1] @ [ttl_code E ttl_type] @ word_to_le (get_ttl now expires_at ttl_type :: 'v word) @
     word_to_le (of_nat (length value) :: 'v word) @ value"

lemma query_answer_get:
  assumes "ty \<noteq> request_code E Query_req"
  shows "query_answer E now ty (Some e) = get_answer E now (e_buffer e) (e_ttl_type e) (e_expires_at e)"
  using assms by (simp add: query_answer_def get_answer_def Let_def)


section \<open>PURGE\<close>

lemma purge_command_slots:
  assumes "entries_ok st" "parse_purge E view = Some k"
  shows "\<exists>st'. purge_command E now ty view i (st, m) =
      Inr (st', emplace_back (status (live_entry (slots (st_storage st) k) \<noteq> None)) m) \<and>
    slots (st_storage st') = (case slots (st_storage st) k of
        Live e \<Rightarrow> (slots (st_storage st))(k := Free) | _ \<Rightarrow> slots (st_storage st)) \<and>
    entries_ok st' \<and>
    (\<forall>n w. storage_find k (st_storage st) = Some (n, w) \<longrightarrow> \<not> w_expired w \<longrightarrow>
      storage_node n (st_storage st') = None)"
proof (cases "storage_find k (st_storage st)")
  case None
  then have "slots (st_storage st) k = Free" by (simp add: slots_def)
  then show ?thesis using None assms by (simp add: purge_command_def)
next
  case (Some x)
  then obtain n w where x: "storage_find k (st_storage st) = Some (n, w)" by (cases x) auto
  let ?st1 = "on_storage (storage_modify n (on_metrics count_read)) st"
  have s: "storage_ok (st_storage st)" using assms(1) by (simp add: entries_ok_def)
  have e1: "entries_ok ?st1" by (rule entries_ok_modify [OF assms(1)]) simp
  then have s1: "storage_ok (st_storage ?st1)" by (simp add: entries_ok_def)
  have sl1: "slots (st_storage ?st1) = slots (st_storage st)"
    by (intro slots_skeleton) simp
  have f1: "storage_find k (st_storage ?st1) = Some (n, on_metrics count_read w)"
    using st.find_modify [OF s x, of "on_metrics count_read" k] by simp
  show ?thesis
  proof (cases "w_expired w")
    case True
    then have "slots (st_storage st) k = Lingering (w_entry w)"
      using x by (simp add: slots_def wrapper_slot_def)
    then show ?thesis using x True e1 sl1 assms(2) by (simp add: purge_command_def Let_def)
  next
    case False
    let ?st2 = "on_storage (storage_erase n) ?st1"
    have live: "slots (st_storage st) k = Live (w_entry w)"
      using x False by (simp add: slots_def wrapper_slot_def)
    have "slots (st_storage ?st2) = (slots (st_storage st))(k := Free)"
      using slots_erase [OF s1 f1] sl1 by simp
    moreover have "entries_ok ?st2"
      by (rule entries_ok_erase [OF e1])
    moreover have "storage_node n (st_storage ?st2) = None"
      by (auto simp: storage_node_def storage_erase_def map_of_eq_None_iff)
    ultimately show ?thesis
      using x False live assms(2) by (auto simp: purge_command_def Let_def)
  qed
qed

text \<open>C15: \<open>PURGE\<close> removes exactly the visible entry: success when a client could see the key, and
  then its slot is free and every other slot is unchanged; failure otherwise, and nothing changes, so
  an entry that waits to be erased keeps its key.\<close>

theorem purge_command_refines:
  assumes "entries_ok st" "parse_purge E view = Some k"
  shows "\<exists>st'. purge_command E now ty view i (st, m) =
      Inr (st', emplace_back (status (live_entry (slots (st_storage st) k) \<noteq> None)) m) \<and>
    slots (st_storage st') = (case slots (st_storage st) k of
        Live e \<Rightarrow> (slots (st_storage st))(k := Free) | _ \<Rightarrow> slots (st_storage st)) \<and>
    entries_ok st'"
  using purge_command_slots [OF assms] by blast

section \<open>A response outlives its entry\<close>

lemma concat_options_None: "None \<in> set xs \<Longrightarrow> concat_options xs = None"
  by (induction xs) auto

lemma write_all_batch:
  "write_all ops (off, m) = Inr (off', m') \<Longrightarrow> Ref sg \<in> set ops \<or> sg \<in> set (batch m) \<Longrightarrow> sg \<in> set (batch m')"
proof (induction ops arbitrary: off m)
  case (Cons op ops)
  then obtain x where "write_step op (off, m) = Inr x" "write_all ops x = Inr (off', m')"
    by (auto simp: res_simps)
  moreover have "op = Ref sg \<or> sg \<in> set (batch m) \<Longrightarrow> sg \<in> set (batch (snd x))"
    using calculation(1) by (cases op) (auto simp: res_simps)
  ultimately show ?case using Cons by (cases x) auto
qed simp

lemma respond_batch:
  "respond n ops m = Inr m' \<Longrightarrow> Ref sg \<in> set ops \<Longrightarrow> sg \<in> set (batch m')"
  using write_all_batch by (fastforce simp: respond_def Let_def res_simps)

text \<open>An answer points into the entry it describes, and only the socket's write reads it. When a
  \<open>QUERY\<close> or \<open>GET\<close> of a visible key is followed by a \<open>PURGE\<close> of that key before the write (as
  when both requests arrive together), the answer is well formed until the purge and dangles after
  it: a pointer into the erased element.\<close>

theorem query_then_purge_dangles:
  fixes E :: "('v::len, 'x) protocol_scheme"
  assumes "entries_ok st" "slots (st_storage st) k = Live e"
    and "parse_query E view = Some k" "parse_purge E view' = Some k"
    and "query_command E now ty view i (st, new_message) = Inr (st1, m1)"
    and "purge_command E now' ty' view' i (st1, new_message) = Inr (st2, m2)"
  shows "gather E (st_storage st1) m1 = Some (query_answer E now ty (Some e)) \<and>
    gather E (st_storage st2) m1 = None"
  using assms(1)
proof (cases rule: find_or_fail_cases [where k = k])
  case hidden
  then show ?thesis using assms(2) by simp
next
  case (found n w st1')
  have "\<exists>n' ops. respond n' ops new_message = Inr m1 \<and> Ref (Entry_ttl_type n) \<in> set ops"
    using assms(3,5) found(1)
    by (auto simp: query_command_def Let_def res_simps split: if_splits)
      (metis list.set_intros(1,2))+
  then have "Entry_ttl_type n \<in> set (batch m1)" using respond_batch by blast
  moreover have "st1 = st1'"
    using assms(3,5) found(1) by (auto simp: query_command_def Let_def res_simps split: if_splits)
  then have "storage_node n (st_storage st2) = None"
    using purge_command_slots [OF found(5) assms(4), of now' ty' i new_message] assms(6) found(7,8) by auto
  then have "seg_bytes E (st_storage st2) m1 (Entry_ttl_type n) = None" by (simp add: seg_bytes_def)
  ultimately have "None \<in> set (map (seg_bytes E (st_storage st2) m1) (batch m1))" by force
  then have "gather E (st_storage st2) m1 = None" unfolding gather_def by (rule concat_options_None)
  then show ?thesis
    using query_command_message [OF assms(1,3) unwritten_new, of now ty i] assms(2,5) by simp
qed

section \<open>LIST and STATS\<close>

definition list_record :: "('v::len, 'x) protocol_scheme \<Rightarrow> 'v entry_wrapper \<Rightarrow> bytes" where
  "list_record E w = [key_length w, entry_code E (e_type (w_entry w)), ttl_code E (e_ttl_type (w_entry w))] @
     word_to_le (e_expires_at (w_entry w)) @ word_to_le (bytes_used E (w_entry w))"

definition stats_record :: "'v::len entry_wrapper \<Rightarrow> bytes" where
  "stats_record w = [key_length w] @
     word_to_le (em_reads_per_minute (w_metrics w)) @ word_to_le (em_writes_per_minute (w_metrics w)) @
     word_to_le (em_reads_accumulator (w_metrics w)) @ word_to_le (em_writes_accumulator (w_metrics w))"

text \<open>The answer to \<open>LIST\<close> or \<open>STATS\<close>, from the storage as the client sees it.\<close>

definition entries_answer :: "nat \<Rightarrow> ('v::len entry_wrapper \<Rightarrow> bytes) \<Rightarrow> 'v storage \<Rightarrow> bytes" where
  "entries_answer item_size item_bytes s =
     fragmented_bytes (item_bytes \<circ> snd) (w_key \<circ> snd)
       (fragments_of 2048 (\<lambda>(_, w). item_size + length (w_key w)) (listed s))"

lemma in_listed: "(n, w) \<in> set (listed s) \<longleftrightarrow> (n, w) \<in> set s \<and> \<not> w_expired w"
  by (auto simp: listed_def)

lemma in_fragments: "x \<in> set (concat (fragments_of limit sz xs)) \<longleftrightarrow> x \<in> set xs"
  by (simp only: fragments_of_concat)

lemma listed_bytes:
  assumes "storage_ok s" "(n, w) \<in> set (listed s)"
  shows "ops_bytes E s (write_list_entry_to_buffer E (n, w)) = Some (list_record E w)"
    and "ops_bytes E s (write_stats_entry_to_buffer (n, w)) = Some (stats_record w)"
    and "op_bytes E s (Ref (Entry_key n)) = Some (w_key w)"
proof -
  have "storage_node n s = Some w"
    using assms by (simp add: storage_node_eq_Some in_listed)
  then show "ops_bytes E s (write_list_entry_to_buffer E (n, w)) = Some (list_record E w)"
    "ops_bytes E s (write_stats_entry_to_buffer (n, w)) = Some (stats_record w)"
    "op_bytes E s (Ref (Entry_key n)) = Some (w_key w)"
    by (simp_all add: write_list_entry_to_buffer_def write_stats_entry_to_buffer_def list_record_def
        stats_record_def seg_bytes_def)
qed

lemma count_listed_storage:
  assumes "entries_ok st"
  shows "storage_ok (storage_for_each count_listed (st_storage st))"
    and "slots (storage_for_each count_listed (st_storage st)) = slots (st_storage st)"
    and "entries_ok (st\<lparr>st_storage := storage_for_each count_listed (st_storage st)\<rparr>)"
proof -
  have sk: "skeleton (storage_for_each count_listed (st_storage st)) = skeleton (st_storage st)"
    by (rule skeleton_for_each) simp
  show "storage_ok (storage_for_each count_listed (st_storage st))"
    using assms storage_ok_skeleton [OF sk] by (simp add: entries_ok_def)
  show "slots (storage_for_each count_listed (st_storage st)) = slots (st_storage st)"
    by (rule slots_skeleton [OF sk])
  show "entries_ok (st\<lparr>st_storage := storage_for_each count_listed (st_storage st)\<rparr>)"
    using assms entries_ok_skeleton [of "st\<lparr>st_storage := storage_for_each count_listed (st_storage st)\<rparr>" st]
      sk by simp
qed

text \<open>The reads counted on the way leave every record as it is.\<close>

lemma listed_for_each:
  "listed (storage_for_each count_listed s) = map (\<lambda>(n, w). (n, count_listed w)) (listed s)"
  by (induction s) (auto simp: listed_def storage_for_each_def)

lemma fragment_loop_map:
  "fragment_loop limit sz (map f xs) (map (map f) fs, map f cur, n) =
     (let (fs', cur', n') = fragment_loop limit (sz \<circ> f) xs (fs, cur, n)
      in (map (map f) fs', map f cur', n'))"
proof (induction xs arbitrary: fs cur n)
  case (Cons x xs)
  show ?case
    using Cons.IH [of "fs @ [cur]" "[x]" "sz (f x)"] Cons.IH [of fs "cur @ [x]" "n + sz (f x)"] by simp
qed simp

lemma fragments_of_map: "fragments_of limit sz (map f xs) = map (map f) (fragments_of limit (sz \<circ> f) xs)"
  using fragment_loop_map [of limit sz f xs "[]" "[]" 0] by (auto simp: fragments_of_def split: prod.split)

lemma fragmented_bytes_map:
  "fragmented_bytes item name (map (map f) fs) = fragmented_bytes (item \<circ> f) (name \<circ> f) fs"
proof -
  have "fragment_bytes item name i (map (map f) fs) = fragment_bytes (item \<circ> f) (name \<circ> f) i fs" for i
    by (induction fs arbitrary: i) simp_all
  then show ?thesis by (simp add: fragmented_bytes_def)
qed

lemma entries_answer_counted:
  assumes "\<And>w. item_bytes (count_listed w) = item_bytes w"
  shows "entries_answer item_size item_bytes (storage_for_each count_listed s) = entries_answer item_size item_bytes s"
  by (simp add: entries_answer_def listed_for_each fragments_of_map fragmented_bytes_map comp_def
      split_def assms)

lemma entries_response:
  fixes ser :: "nat \<times> 'v::len entry_wrapper \<Rightarrow> write_op list"
  assumes "entries_ok st" "unwritten m" "serializer ser (\<lambda>_. item_size) (\<lambda>(n, _). Ref (Entry_key n))"
    and "\<And>s n w. storage_ok s \<Longrightarrow> (n, w) \<in> set (listed s) \<Longrightarrow> ops_bytes E s (ser (n, w)) = Some (item_bytes w)"
    and "\<And>w. item_bytes (count_listed w) = item_bytes w"
  shows "\<exists>st' m'. handle_fragmented_entries_response 2048 item_size ser (st, m) = Inr (st', m') \<and>
    slots (st_storage st') = slots (st_storage st) \<and> entries_ok st' \<and>
    gather E (st_storage st') m' = opt_append (gather E (st_storage st') m)
      (Some (entries_answer item_size item_bytes (st_storage st)))"
proof -
  let ?s = "storage_for_each count_listed (st_storage st)"
  let ?fs = "fragments_of 2048 (\<lambda>(_, w). item_size + length (w_key w)) (listed ?s)"
  let ?n = "8 + item_size * length (listed ?s) + length ?fs * 16"
  let ?ops = "fragmented_ops ser (\<lambda>(n, _). Ref (Entry_key n)) ?fs"
  note s = count_listed_storage [OF assms(1)]
  have "8 + 16 * length ?fs + sum_list (map (\<lambda>_. item_size) (concat ?fs)) \<le> ?n"
    by (simp add: fragments_of_concat sum_list_triv)
  then obtain m' where m': "respond ?n ?ops m = Inr m'"
    "gather E ?s m' = opt_append (gather E ?s m) (ops_bytes E ?s ?ops)"
    using serializer.fragmented_answer [OF assms(3,2), of ?fs ?n E ?s] by blast
  have "ops_bytes E ?s ?ops = Some (fragmented_bytes (item_bytes \<circ> snd) (w_key \<circ> snd) ?fs)"
  proof (rule fragment_ops_bytes)
    fix x assume "x \<in> set (concat ?fs)"
    then have x: "(fst x, snd x) \<in> set (listed ?s)" by (simp only: in_fragments prod.collapse)
    show "ops_bytes E ?s (ser x) = Some ((item_bytes \<circ> snd) x)"
      using assms(4) [OF s(1) x] by simp
    show "op_bytes E ?s ((\<lambda>(n, _). Ref (Entry_key n)) x) = Some ((w_key \<circ> snd) x)"
      using listed_bytes(3) [OF s(1) x, of E] by (simp add: split_def)
  qed
  then have "gather E ?s m' = opt_append (gather E ?s m)
      (Some (entries_answer item_size item_bytes (st_storage st)))"
    using m'(2) entries_answer_counted [of item_bytes item_size "st_storage st", OF assms(5)]
    by (simp add: entries_answer_def)
  then show ?thesis
    using m'(1) s by (simp add: handle_fragmented_entries_response_def Let_def)
qed

lemma listing_messages:
  assumes "entries_ok st" "unwritten m"
  shows "(\<exists>st' m'. list_command E now ty view i (st, m) = Inr (st', m') \<and>
      slots (st_storage st') = slots (st_storage st) \<and> entries_ok st' \<and>
      gather E (st_storage st') m' = opt_append (gather E (st_storage st') m)
        (Some (entries_answer (list_measure E) (list_record E) (st_storage st)))) \<and>
    (\<exists>st' m'. stats_command E now ty view i (st, m) = Inr (st', m') \<and>
      slots (st_storage st') = slots (st_storage st) \<and> entries_ok st' \<and>
      gather E (st_storage st') m' = opt_append (gather E (st_storage st') m)
        (Some (entries_answer stats_measure stats_record (st_storage st))))"
proof -
  have r: "list_record E (count_listed w) = list_record E w" "stats_record (count_listed w) = stats_record w"
    for w
    by (simp_all add: list_record_def stats_record_def key_length_def count_listed_def count_read_def)
  show ?thesis
    unfolding list_command_def stats_command_def
    by (rule conjI)
      (rule entries_response [OF assms], rule list_entry.serializer_axioms stats_entry.serializer_axioms,
        rule listed_bytes(1,2), assumption+, rule r)+
qed


section \<open>Witnesses\<close>

lemma parse_seven:
  "parse_query (sample_protocol :: 16 protocol) [2, 1, 7] = Some [7]"
  "parse_purge (sample_protocol :: 16 protocol) [4, 1, 7] = Some [7]"
  by (simp_all add: sample_sized_def byte_at_def field_def)

lemma word_to_le_16: "word_to_le (w :: 16 word) = [ucast w, ucast (drop_bit 8 w)]"
proof -
  have "[0..<2] = [0, 1 :: nat]" by (simp add: upt_rec)
  then show ?thesis by (simp add: word_to_le_def)
qed

theorem query_command_answers_witness:
  "\<exists>st' m'. query_command (sample_protocol :: 16 protocol) 6000 2 [2, 1, 7] 1 (one_counter 5, new_message) =
      Inr (st', m') \<and>
    gather (sample_protocol :: 16 protocol) (st_storage st') m' = Some [1, 5, 0, 4, 0, 0]"
  using query_command_answers [OF one_counter_ok(1) parse_seven(1) unwritten_new, of 6000 2 1 5]
  by (auto simp: one_counter_ok(2) query_answer_def get_ttl_def word_to_le_16)

theorem purge_command_refines_witness:
  "\<exists>st'. purge_command (sample_protocol :: 16 protocol) 6000 4 [4, 1, 7] 1 (one_counter 5, new_message) =
      Inr (st', emplace_back (status True) new_message) \<and> slots (st_storage st') [7] = Free"
  using purge_command_refines [OF one_counter_ok(1) parse_seven(2), of 6000 4 1 5 new_message]
  by (auto simp: one_counter_ok(2))

theorem query_then_purge_dangles_witness:
  "\<exists>st1 m1 st2 m2. query_command (sample_protocol :: 16 protocol) 6000 2 [2, 1, 7] 1
        (one_counter 5, new_message) = Inr (st1, m1) \<and>
     purge_command (sample_protocol :: 16 protocol) 6000 4 [4, 1, 7] 1 (st1, new_message) = Inr (st2, m2) \<and>
     gather (sample_protocol :: 16 protocol) (st_storage st1) m1 = Some [1, 5, 0, 4, 0, 0] \<and>
     gather (sample_protocol :: 16 protocol) (st_storage st2) m1 = None"
proof -
  let ?E = "sample_protocol :: 16 protocol"
  obtain st1 m1 where q: "query_command ?E 6000 2 [2, 1, 7] 1 (one_counter 5, new_message) = Inr (st1, m1)"
    "entries_ok st1"
    using query_command_message [OF one_counter_ok(1) parse_seven(1) unwritten_new, of 6000 2 1 5] by blast
  obtain st2 m2 where p: "purge_command ?E 6000 4 [4, 1, 7] 1 (st1, new_message) = Inr (st2, m2)"
    using purge_command_slots [OF q(2) parse_seven(2), of 6000 4 1 new_message] by blast
  have "query_answer ?E 6000 2 (Some \<lparr>e_type = Counter, e_counter = 5, e_buffer = [],
      e_ttl_type = Seconds, e_expires_at = 5000\<rparr>) = [1, 5, 0, 4, 0, 0]"
    by (simp add: query_answer_def get_ttl_def word_to_le_16)
  then show ?thesis
    using query_then_purge_dangles [OF one_counter_ok(1) one_counter_ok(2) parse_seven q(1) p] q(1) p
    by auto
qed

text \<open>\<open>SET [8] = [1, 2]\<close> with a TTL of one second, then \<open>GET [8]\<close>.\<close>

definition set_eight :: bytes where "set_eight = [5, 4, 1, 0, 1, 2, 0, 8, 1, 2]"

lemma parse_set_eight:
  "parse_set (sample_protocol :: 16 protocol) set_eight =
     Some \<lparr>set_key = [8], set_value = [1, 2], set_ttl_type = Seconds, set_ttl = [1, 0]\<rparr>"
  by (simp add: sample_protocol_def set_eight_def field_def byte_at_def sample_ttl_of_code_def le_to_word_def)

lemma sample_expiration: "get_expiration_point (sample_protocol :: 16 protocol) 1000 Seconds [1, 0] = Inr 1000001000"
  using get_expiration_point_eq [of "sample_protocol :: 16 protocol" "[1, 0]" 1 1000 Seconds]
  by (simp add: read_value_def le_to_word_def)



end
