(* ===== verification/Messages.thy ===== *)
theory Messages
  imports Sample
begin

text \<open>
  \<open>messages_service.cpp\<close>: from the first bytes in the receive buffer to the size of the message
  they begin. Size 0 means that the header is not complete yet, and also that no message has that type.
\<close>

section \<open>The size functions\<close>

definition byte_of :: "nat \<Rightarrow> bytes \<Rightarrow> nat res" where
  "byte_of i b = (if i < length b then Inr (unat (b ! i)) else Inl Out_of_bounds)"

text \<open>The pattern of the messages with one sized field: the size byte is at \<open>i\<close>.\<close>

definition sized :: "nat \<Rightarrow> nat \<Rightarrow> bytes \<Rightarrow> nat res" where
  "sized header i b =
     (if length b < header then Inr 0 else bind_res (byte_of i b) (\<lambda>n. Inr (header + n)))"

text \<open>With a second, \<open>value_type\<close>-sized length at \<open>j\<close>.\<close>

definition sized_value ::
  "('v::len, 'x) protocol_scheme \<Rightarrow> nat \<Rightarrow> nat \<Rightarrow> nat \<Rightarrow> bytes \<Rightarrow> nat res" where
  "sized_value E header i j b =
     (if length b < header then Inr 0
      else bind_res (byte_of i b) (\<lambda>n.
           bind_res (read_value E (drop j b)) (\<lambda>v. Inr (header + n + unat v))))"

definition fixed :: "nat \<Rightarrow> bytes \<Rightarrow> nat res" where
  "fixed header b = Inr (if header \<le> length b then header else 0)"

definition get_insert_size :: "('v::len, 'x) protocol_scheme \<Rightarrow> bytes \<Rightarrow> nat res" where
  "get_insert_size E = sized (header_size E Insert_req) (value_size E * 2 + 2)"

definition get_query_size :: "('v::len, 'x) protocol_scheme \<Rightarrow> bytes \<Rightarrow> nat res" where
  "get_query_size E = sized (header_size E Query_req) 1"

definition get_update_size :: "('v::len, 'x) protocol_scheme \<Rightarrow> bytes \<Rightarrow> nat res" where
  "get_update_size E = sized (header_size E Update_req) (value_size E + 3)"

definition get_set_size :: "('v::len, 'x) protocol_scheme \<Rightarrow> bytes \<Rightarrow> nat res" where
  "get_set_size E = sized_value E (header_size E Set_req) (2 + value_size E) (3 + value_size E)"

definition get_get_size :: "('v::len, 'x) protocol_scheme \<Rightarrow> bytes \<Rightarrow> nat res" where
  "get_get_size E = sized (header_size E Get_req) 1"

definition get_purge_size :: "('v::len, 'x) protocol_scheme \<Rightarrow> bytes \<Rightarrow> nat res" where
  "get_purge_size E = sized (header_size E Purge_req) 1"

definition get_stat_size :: "('v::len, 'x) protocol_scheme \<Rightarrow> bytes \<Rightarrow> nat res" where
  "get_stat_size E = sized (header_size E Stat_req) 1"

definition get_list_size :: "('v::len, 'x) protocol_scheme \<Rightarrow> bytes \<Rightarrow> nat res" where
  "get_list_size E = fixed (header_size E List_req)"

definition get_stats_size :: "('v::len, 'x) protocol_scheme \<Rightarrow> bytes \<Rightarrow> nat res" where
  "get_stats_size E = fixed (header_size E Stats_req)"

definition get_connections_size :: "('v::len, 'x) protocol_scheme \<Rightarrow> bytes \<Rightarrow> nat res" where
  "get_connections_size E = fixed (header_size E Connections_req)"

definition get_connection_size :: "('v::len, 'x) protocol_scheme \<Rightarrow> bytes \<Rightarrow> nat res" where
  "get_connection_size E = fixed (header_size E Connection_req)"

definition get_whoami_size :: "('v::len, 'x) protocol_scheme \<Rightarrow> bytes \<Rightarrow> nat res" where
  "get_whoami_size E = fixed (header_size E Whoami_req)"

definition get_subscribe_size :: "('v::len, 'x) protocol_scheme \<Rightarrow> bytes \<Rightarrow> nat res" where
  "get_subscribe_size E = sized (header_size E Subscribe_req) 1"

definition get_unsubscribe_size :: "('v::len, 'x) protocol_scheme \<Rightarrow> bytes \<Rightarrow> nat res" where
  "get_unsubscribe_size E = sized (header_size E Unsubscribe_req) 1"

definition get_publish_size :: "('v::len, 'x) protocol_scheme \<Rightarrow> bytes \<Rightarrow> nat res" where
  "get_publish_size E = sized_value E (header_size E Publish_req) 1 2"

definition get_channels_size :: "('v::len, 'x) protocol_scheme \<Rightarrow> bytes \<Rightarrow> nat res" where
  "get_channels_size E = fixed (header_size E Channels_req)"

definition get_channel_size :: "('v::len, 'x) protocol_scheme \<Rightarrow> bytes \<Rightarrow> nat res" where
  "get_channel_size E = sized (header_size E Channel_req) 1"

text \<open>\<open>get_info_size\<close> uses the header size of \<open>whoami\<close>.\<close>

definition get_info_size :: "('v::len, 'x) protocol_scheme \<Rightarrow> bytes \<Rightarrow> nat res" where
  "get_info_size E = fixed (header_size E Whoami_req)"

definition get_event_size :: "('v::len, 'x) protocol_scheme \<Rightarrow> bytes \<Rightarrow> nat res" where
  "get_event_size E = sized_value E (header_size E Event_req) 1 2"

definition invalid_size :: "bytes \<Rightarrow> nat res" where
  "invalid_size b = Inr 0"

section \<open>The table\<close>

text \<open>The constructor fills 32 slots and overwrites one per request type, in this order.\<close>

definition set_slot :: "('v::len, 'x) protocol_scheme \<Rightarrow> request_types \<Rightarrow> 'f \<Rightarrow> 'f list \<Rightarrow> 'f list" where
  "set_slot E r f table = table[unat (request_code E r) := f]"

definition size_functions ::
  "('v::len, 'x) protocol_scheme \<Rightarrow> (request_types \<times> (bytes \<Rightarrow> nat res)) list" where
  "size_functions E =
     [(Insert_req, get_insert_size E), (Set_req, get_set_size E), (Query_req, get_query_size E),
      (Get_req, get_get_size E), (Update_req, get_update_size E), (Purge_req, get_purge_size E),
      (List_req, get_list_size E), (Stat_req, get_stat_size E), (Stats_req, get_stats_size E),
      (Connections_req, get_connections_size E), (Connection_req, get_connection_size E),
      (Whoami_req, get_whoami_size E), (Subscribe_req, get_subscribe_size E),
      (Unsubscribe_req, get_unsubscribe_size E), (Publish_req, get_publish_size E),
      (Channels_req, get_channels_size E), (Channel_req, get_channel_size E),
      (Info_req, get_info_size E), (Event_req, get_event_size E)]"

definition message_types :: "('v::len, 'x) protocol_scheme \<Rightarrow> (bytes \<Rightarrow> nat res) list" where
  "message_types E = fold (\<lambda>(r, f). set_slot E r f) (size_functions E) (replicate 32 invalid_size)"

text \<open>\<open>get_message_size\<close> of \<open>connection.ipp\<close>: \<open>message_types_[type](buffer)\<close>, without a
  bounds check on the 32 slots.\<close>

definition get_message_size :: "('v::len, 'x) protocol_scheme \<Rightarrow> bytes \<Rightarrow> nat res" where
  "get_message_size E b =
     (if b = [] then Inr 0
      else let ty = unat (hd b)
           in if ty < length (message_types E) then (message_types E ! ty) b else Inl Out_of_bounds)"

section \<open>Tables by request type\<close>

definition request_of :: "('v::len, 'x) protocol_scheme \<Rightarrow> byte \<Rightarrow> request_types option" where
  "request_of E ty = List.find (\<lambda>r. request_code E r = ty) enum_class.enum"

lemma request_of_code [simp]:
  assumes "request_codes_ok E"
  shows "request_of E (request_code E r) = Some r"
proof (cases "request_of E (request_code E r)")
  case None
  then show ?thesis using in_enum [of r] by (auto simp: request_of_def find_None_iff)
next
  case (Some r')
  then have "request_code E r' = request_code E r" by (auto simp: request_of_def find_Some_iff)
  then show ?thesis using assms Some by (auto simp: request_codes_ok_def dest: injD)
qed

lemma request_of_Some: "request_of E ty = Some r \<Longrightarrow> ty = request_code E r"
  by (auto simp: request_of_def find_Some_iff)

lemma request_of_None: "request_of E ty = None \<Longrightarrow> request_code E r \<noteq> ty"
  using in_enum [of r] by (auto simp: request_of_def find_None_iff)

text \<open>A table filled with a default and then written slot by slot.\<close>

definition table_of ::
  "('v::len, 'x) protocol_scheme \<Rightarrow> (request_types \<times> 'f) list \<Rightarrow> 'f list \<Rightarrow> 'f list" where
  "table_of E fs t = fold (\<lambda>(r, f). set_slot E r f) fs t"

lemma length_table_of [simp]: "length (table_of E fs t) = length t"
  by (induction fs arbitrary: t) (auto simp: table_of_def set_slot_def)

lemma table_of_other:
  "(\<And>r. r \<in> fst ` set fs \<Longrightarrow> unat (request_code E r) \<noteq> i) \<Longrightarrow> table_of E fs t ! i = t ! i"
proof (induction fs arbitrary: t)
  case (Cons x fs)
  then show ?case by (cases x) (simp add: table_of_def set_slot_def)
qed (simp add: table_of_def)

lemma table_of_slot:
  assumes "request_codes_ok E" "32 \<le> length t" "distinct (map fst fs)" "(r, f) \<in> set fs"
  shows "table_of E fs t ! unat (request_code E r) = f"
  using assms
proof (induction fs arbitrary: t)
  case (Cons x fs)
  show ?case
  proof (cases "x = (r, f)")
    case True
    have "unat (request_code E r') \<noteq> unat (request_code E r)" if "r' \<in> fst ` set fs" for r'
      using that True Cons.prems(1,3) by (force simp: request_codes_ok_def inj_eq)
    then have "table_of E fs (set_slot E r f t) ! unat (request_code E r) =
        set_slot E r f t ! unat (request_code E r)"
      by (rule table_of_other)
    moreover have "unat (request_code E r) < length t"
      using Cons.prems(1,2) unfolding request_codes_ok_def by (meson less_le_trans)
    ultimately show ?thesis using True by (simp add: table_of_def set_slot_def)
  next
    case False
    then have "table_of E fs (set_slot E (fst x) (snd x) t) ! unat (request_code E r) = f"
      using Cons.prems by (intro Cons.IH) (auto simp: set_slot_def)
    then show ?thesis by (simp add: table_of_def split_def)
  qed
qed simp

section \<open>Specification\<close>

text \<open>
  Documented facts about the headers: they are long enough for the size fields that the functions
  read from them, and never empty.
\<close>

definition layout_ok :: "('v::len, 'x) protocol_scheme \<Rightarrow> bool" where
  "layout_ok E \<longleftrightarrow>
     2 * value_size E + 2 < header_size E Insert_req \<and> value_size E + 3 < header_size E Update_req \<and>
     2 * value_size E + 3 \<le> header_size E Set_req \<and>
     value_size E + 2 \<le> header_size E Publish_req \<and> value_size E + 2 \<le> header_size E Event_req \<and>
     (\<forall>r \<in> {Query_req, Get_req, Purge_req, Stat_req, Subscribe_req, Unsubscribe_req, Channel_req}.
        1 < header_size E r) \<and>
     (\<forall>r. 0 < header_size E r)"

definition fixed_part :: "('v::len, 'x) protocol_scheme \<Rightarrow> request_types \<Rightarrow> nat" where
  "fixed_part E r = header_size E (if r = Info_req then Whoami_req else r)"

fun variable_part :: "nat \<Rightarrow> (bytes \<Rightarrow> nat) \<Rightarrow> request_types \<Rightarrow> bytes \<Rightarrow> nat" where
  "variable_part vs value Insert_req b = unat (b ! (2 * vs + 2))"
| "variable_part vs value Update_req b = unat (b ! (vs + 3))"
| "variable_part vs value Set_req b = unat (b ! (vs + 2)) + value (take vs (drop (vs + 3) b))"
| "variable_part vs value Publish_req b = unat (b ! 1) + value (take vs (drop 2 b))"
| "variable_part vs value Event_req b = unat (b ! 1) + value (take vs (drop 2 b))"
| "variable_part vs value r b =
     (if r \<in> {Query_req, Get_req, Purge_req, Stat_req, Subscribe_req, Unsubscribe_req, Channel_req}
      then unat (b ! 1) else 0)"

text \<open>The length of a message of type \<open>r\<close> that starts with \<open>b\<close>, 0 while its header is not complete.\<close>

definition declared_size :: "('v::len, 'x) protocol_scheme \<Rightarrow> request_types \<Rightarrow> bytes \<Rightarrow> nat" where
  "declared_size E r b =
     (if length b < fixed_part E r then 0
      else fixed_part E r +
        variable_part (value_size E) (\<lambda>v. unat (le_to_word v :: 'v word)) r b)"

lemma sized_eq:
  "i < header \<Longrightarrow> sized header i b = Inr (if length b < header then 0 else header + unat (b ! i))"
  by (simp add: sized_def byte_of_def)

lemma sized_value_eq:
  fixes E :: "('v::len, 'x) protocol_scheme"
  assumes "i < header" "j + value_size E \<le> header"
  shows "sized_value E header i j b = Inr (if length b < header then 0 else
    header + unat (b ! i) + unat (le_to_word (take (value_size E) (drop j b)) :: 'v word))"
proof (cases "length b < header")
  case False
  then have "\<not> length b < j + value_size E" "i < length b" using assms by linarith+
  then show ?thesis
    using False by (simp add: sized_value_def byte_of_def read_value_def less_diff_conv2 not_less
        del: value_size_simp)
qed (simp add: sized_value_def)

lemma size_function_eqs:
  assumes "layout_ok E"
  shows "get_insert_size E b = Inr (declared_size E Insert_req b)"
    "get_set_size E b = Inr (declared_size E Set_req b)"
    "get_query_size E b = Inr (declared_size E Query_req b)"
    "get_get_size E b = Inr (declared_size E Get_req b)"
    "get_update_size E b = Inr (declared_size E Update_req b)"
    "get_purge_size E b = Inr (declared_size E Purge_req b)"
    "get_list_size E b = Inr (declared_size E List_req b)"
    "get_stat_size E b = Inr (declared_size E Stat_req b)"
    "get_stats_size E b = Inr (declared_size E Stats_req b)"
    "get_connections_size E b = Inr (declared_size E Connections_req b)"
    "get_connection_size E b = Inr (declared_size E Connection_req b)"
    "get_whoami_size E b = Inr (declared_size E Whoami_req b)"
    "get_subscribe_size E b = Inr (declared_size E Subscribe_req b)"
    "get_unsubscribe_size E b = Inr (declared_size E Unsubscribe_req b)"
    "get_publish_size E b = Inr (declared_size E Publish_req b)"
    "get_channels_size E b = Inr (declared_size E Channels_req b)"
    "get_channel_size E b = Inr (declared_size E Channel_req b)"
    "get_info_size E b = Inr (declared_size E Info_req b)"
    "get_event_size E b = Inr (declared_size E Event_req b)"
proof -
  have v: "value_size E * 2 + 2 < header_size E Insert_req" "value_size E + 3 < header_size E Update_req"
    "2 + value_size E < header_size E Set_req" "3 + value_size E + value_size E \<le> header_size E Set_req"
    "1 < header_size E Publish_req" "2 + value_size E \<le> header_size E Publish_req"
    "1 < header_size E Event_req" "2 + value_size E \<le> header_size E Event_req"
    "1 < header_size E Query_req" "1 < header_size E Get_req" "1 < header_size E Purge_req"
    "1 < header_size E Stat_req" "1 < header_size E Subscribe_req" "1 < header_size E Unsubscribe_req"
    "1 < header_size E Channel_req"
    using assms unfolding layout_ok_def by auto
  note defs = get_insert_size_def get_set_size_def get_query_size_def get_get_size_def
      get_update_size_def get_purge_size_def get_list_size_def get_stat_size_def
      get_stats_size_def get_connections_size_def get_connection_size_def get_whoami_size_def
      get_subscribe_size_def get_unsubscribe_size_def get_publish_size_def get_channels_size_def
      get_channel_size_def get_info_size_def get_event_size_def
  note eqs = sized_eq [OF v(1)] sized_eq [OF v(2)] sized_value_eq [OF v(3,4)] sized_value_eq [OF v(5,6)]
    sized_value_eq [OF v(7,8)] v(9-15) [THEN sized_eq]
  show "get_insert_size E b = Inr (declared_size E Insert_req b)"
    "get_set_size E b = Inr (declared_size E Set_req b)"
    "get_query_size E b = Inr (declared_size E Query_req b)"
    "get_get_size E b = Inr (declared_size E Get_req b)"
    "get_update_size E b = Inr (declared_size E Update_req b)"
    "get_purge_size E b = Inr (declared_size E Purge_req b)"
    "get_list_size E b = Inr (declared_size E List_req b)"
    "get_stat_size E b = Inr (declared_size E Stat_req b)"
    "get_stats_size E b = Inr (declared_size E Stats_req b)"
    "get_connections_size E b = Inr (declared_size E Connections_req b)"
    "get_connection_size E b = Inr (declared_size E Connection_req b)"
    "get_whoami_size E b = Inr (declared_size E Whoami_req b)"
    "get_subscribe_size E b = Inr (declared_size E Subscribe_req b)"
    "get_unsubscribe_size E b = Inr (declared_size E Unsubscribe_req b)"
    "get_publish_size E b = Inr (declared_size E Publish_req b)"
    "get_channels_size E b = Inr (declared_size E Channels_req b)"
    "get_channel_size E b = Inr (declared_size E Channel_req b)"
    "get_info_size E b = Inr (declared_size E Info_req b)"
    "get_event_size E b = Inr (declared_size E Event_req b)"
    unfolding defs eqs declared_size_def fixed_part_def fixed_def
    by (simp_all add: add.commute mult.commute del: value_size_simp)
qed

lemma size_functions_declared:
  assumes "layout_ok E" "(r, f) \<in> set (size_functions E)"
  shows "f b = Inr (declared_size E r b)"
  using assms(2) size_function_eqs [OF assms(1), of b] by (auto simp: size_functions_def)

lemma distinct_size_functions: "distinct (map fst (size_functions E))"
  by (simp add: size_functions_def)

lemma fst_size_functions: "map fst (size_functions E) = enum_class.enum"
  by (simp add: size_functions_def enum_request_types_def)

lemma message_types_table: "message_types E = table_of E (size_functions E) (replicate 32 invalid_size)"
  by (simp add: message_types_def table_of_def)

lemma length_message_types [simp]: "length (message_types E) = 32"
  by (simp add: message_types_table)

lemma message_size_cases:
  assumes "request_codes_ok E" "layout_ok E"
  shows "get_message_size E b =
    (if b = [] then Inr 0
     else case request_of E (hd b) of
            Some r \<Rightarrow> Inr (declared_size E r b)
          | None \<Rightarrow> if unat (hd b) < 32 then Inr 0 else Inl Out_of_bounds)"
proof (cases "request_of E (hd b)")
  case None
  then have "unat (request_code E r) \<noteq> unat (hd b)" for r
    using request_of_None [of E "hd b" r] by (simp add: word_unat_eq_iff)
  then have "message_types E ! unat (hd b) = replicate 32 invalid_size ! unat (hd b)"
    unfolding message_types_table by (intro table_of_other)
  then show ?thesis using None by (simp add: get_message_size_def Let_def invalid_size_def)
next
  case (Some r)
  have code: "hd b = request_code E r" by (rule request_of_Some [OF Some])
  have "r \<in> set (map fst (size_functions E))" by (simp add: fst_size_functions in_enum del: set_map)
  then obtain f where f: "(r, f) \<in> set (size_functions E)" by auto
  have "message_types E ! unat (request_code E r) = f"
    unfolding message_types_table
    by (rule table_of_slot [OF assms(1) _ distinct_size_functions f]) simp
  moreover have "unat (request_code E r) < 32" using assms(1) by (simp add: request_codes_ok_def)
  ultimately show ?thesis
    using Some size_functions_declared [OF assms(2) f, of b]
    by (simp add: get_message_size_def Let_def code)
qed


section \<open>The size depends on the header only\<close>

lemma fixed_part_pos: "layout_ok E \<Longrightarrow> 0 < fixed_part E r"
  by (simp add: layout_ok_def fixed_part_def)

lemma declared_size_append:
  assumes "layout_ok E" "0 < declared_size E r b"
  shows "declared_size E r (b @ c) = declared_size E r b"
proof -
  have len: "fixed_part E r \<le> length b"
    using assms(2) by (simp add: declared_size_def not_less split: if_splits)
  have lay: "2 * value_size E + 2 < header_size E Insert_req" "value_size E + 3 < header_size E Update_req"
    "2 * value_size E + 3 \<le> header_size E Set_req"
    "value_size E + 2 \<le> header_size E Publish_req" "value_size E + 2 \<le> header_size E Event_req"
    "1 < header_size E Query_req" "1 < header_size E Get_req" "1 < header_size E Purge_req"
    "1 < header_size E Stat_req" "1 < header_size E Subscribe_req" "1 < header_size E Unsubscribe_req"
    "1 < header_size E Channel_req"
    using assms(1) unfolding layout_ok_def by auto
  have "variable_part (value_size E) f r (b @ c) = variable_part (value_size E) f r b" for f
    using len lay by (cases r) (simp_all add: fixed_part_def nth_append del: value_size_simp)
  then show ?thesis using len by (simp add: declared_size_def)
qed

lemma get_message_size_append:
  assumes "request_codes_ok E" "layout_ok E" "get_message_size E b = Inr n" "0 < n"
  shows "get_message_size E (b @ c) = Inr n"
  using assms(3,4) declared_size_append [OF assms(2)]
  by (auto simp: message_size_cases [OF assms(1,2)] split: if_splits option.splits)

lemma sample_layout_ok: "layout_ok (sample_protocol :: 'v::len protocol)"
proof -
  have "0 < sample_header_size n r" for n r by (cases r) simp_all
  then show ?thesis by (simp add: layout_ok_def)
qed

lemma sample_size: "get_message_size (sample_protocol :: 16 protocol) b = (if b = [] then Inr 0
    else case request_of (sample_protocol :: 16 protocol) (hd b) of
      Some r \<Rightarrow> Inr (declared_size (sample_protocol :: 16 protocol) r b)
    | None \<Rightarrow> if unat (hd b) < 32 then Inr 0 else Inl Out_of_bounds)"
  by (rule message_size_cases [OF sample_request_codes_ok sample_layout_ok])


end
