(* ===== verification/Commands_Channels.thy ===== *)
theory Commands_Channels
  imports Commands_Entries Messages
begin

text \<open>
  The commands on channels: \<open>subscribe\<close>, \<open>unsubscribe\<close>, \<open>publish\<close>, \<open>channel\<close> and
  \<open>channels\<close>.
\<close>

definition on_subscriptions ::
  "(subscription_container \<Rightarrow> subscription_container) \<Rightarrow> 'v::len state \<Rightarrow> 'v state" where
  "on_subscriptions f st = st\<lparr>st_subscriptions := f (st_subscriptions st)\<rparr>"

lemma on_subscriptions_fields [simp]:
  "st_storage (on_subscriptions f st) = st_storage st"
  "st_next_node (on_subscriptions f st) = st_next_node st"
  "st_connections (on_subscriptions f st) = st_connections st"
  "st_subscriptions (on_subscriptions f st) = f (st_subscriptions st)"
  "st_commands (on_subscriptions f st) = st_commands st"
  by (simp_all add: on_subscriptions_def)

section \<open>subscribe and unsubscribe\<close>

definition subscribe_command :: "('v::len, 'x) protocol_scheme \<Rightarrow> 'v command" where
  "subscribe_command E now ty view i = (\<lambda>(st, m).
     bind_res (of_option Bad_request (parse_subscribe E view)) (\<lambda>c.
       let (subs, inserted) = insert_subscription (make_subscription now i c) (st_subscriptions st)
       in Inr (on_subscriptions (\<lambda>_. subs) st, emplace_back (status inserted) m)))"

definition unsubscribe_command :: "('v::len, 'x) protocol_scheme \<Rightarrow> 'v command" where
  "unsubscribe_command E now ty view i = (\<lambda>(st, m).
     bind_res (of_option Bad_request (parse_unsubscribe E view)) (\<lambda>c.
       if \<not> is_subscribed i c (st_subscriptions st) then Inr (st, emplace_back (status False) m)
       else Inr (on_subscriptions (erase_subscriptions i c) st, emplace_back (status True) m)))"

section \<open>publish\<close>

text \<open>
  The message for one subscriber: the type byte of \<open>event\<close>, one byte of channel length (the length
  cut to eight bits), the payload length, the channel and the payload, in a buffer of the full size.
\<close>

definition event_message :: "('v::len, 'x) protocol_scheme \<Rightarrow> bytes \<Rightarrow> bytes \<Rightarrow> message res" where
  "event_message E channel payload =
     (let total = 1 + 1 + value_size E + length channel + length payload;
          channel_size = unat (of_nat (length channel) :: byte)
      in bind_res (copy_parts
           [[request_code E Event_req], [of_nat (length channel)],
            word_to_le (of_nat (length payload) :: 'v word), take channel_size channel, payload]
           0 (replicate total 0))
         (\<lambda>(_, buffer). Inr \<lparr>write_buffer = buffer, generation = 1,
            batch = [In_buffer 1 0 (length buffer)]\<rparr>))"

definition on_network :: "(connection_network_metrics \<Rightarrow> connection_network_metrics) \<Rightarrow> connection \<Rightarrow> connection"
where
  "on_network f c = c\<lparr>c_metrics := (c_metrics c)\<lparr>cm_network := f (cm_network (c_metrics c))\<rparr>\<rparr>"

text \<open>\<open>_process\<close> on the connection found in one of the maps; \<open>scope\<close> is the publisher.\<close>

definition deliver :: "uuid \<Rightarrow> u64 \<Rightarrow> message \<Rightarrow> connection \<Rightarrow> connection" where
  "deliver scope size_of_payload m c =
     send m (if c_id c = scope
       then on_network (\<lambda>n. n\<lparr>net_published_bytes := mark size_of_payload (net_published_bytes n)\<rparr>) c
       else on_network (\<lambda>n. n\<lparr>net_received_bytes := mark size_of_payload (net_received_bytes n)\<rparr>) c)"

text \<open>The body of the loop, for the subscription \<open>sub\<close>. The maps are tried in this order.\<close>

definition publish_to ::
  "('v::len, 'x) protocol_scheme \<Rightarrow> uuid \<Rightarrow> bytes \<Rightarrow> bytes \<Rightarrow> subscription \<Rightarrow> 'v state \<Rightarrow> 'v state res" where
  "publish_to E scope channel payload sub st =
     (let i = sub_connection_id sub;
          maps = filter (\<lambda>k. contains i (st_connections st k)) [Tcp, Unix, Agent_tcp, Agent_unix]
      in if maps = [] then Inr st
         else bind_res (event_message E channel payload) (\<lambda>m.
              Inr (fold (\<lambda>k. on_connection k i (deliver scope (of_nat (length payload)) m)) maps st)))"

text \<open>\<open>_sub.metrics_->read_bytes_.mark\<close>, once for every subscription of the range.\<close>

definition mark_readers :: "bytes \<Rightarrow> u64 \<Rightarrow> subscription_container \<Rightarrow> subscription_container" where
  "mark_readers channel n = map (\<lambda>s. if sub_channel s = channel
     then s\<lparr>sub_metrics := (sub_metrics s)\<lparr>sm_read_bytes := mark n (sm_read_bytes (sub_metrics s))\<rparr>\<rparr>
     else s)"

definition publish_command :: "('v::len, 'x) protocol_scheme \<Rightarrow> 'v command" where
  "publish_command E now ty view i = (\<lambda>(st, m).
     bind_res (of_option Bad_request (parse_publish E view)) (\<lambda>r.
       let channel = pub_channel r; payload = pub_value r;
           members = range_by_channel channel (st_subscriptions st)
       in if members = [] then Inr (st, emplace_back (status False) m)
          else bind_res
            (fold_res (publish_to E i channel payload) members
              (on_subscriptions (mark_readers channel (of_nat (length payload))) st))
            (\<lambda>st'. Inr (st', emplace_back (status True) m))))"

section \<open>channel\<close>

definition channel_entry :: "subscription \<Rightarrow> write_op list" where
  "channel_entry s =
     [Emit [uuid_bytes (sub_connection_id s)], Emit [word_to_le (sub_subscribed_at s)],
      Emit [word_to_le (m_accumulator (sm_read_bytes (sub_metrics s)))],
      Emit [word_to_le (m_accumulator (sm_write_bytes (sub_metrics s)))]]"

definition channel_command :: "('v::len, 'x) protocol_scheme \<Rightarrow> 'v command" where
  "channel_command E now ty view i = (\<lambda>(st, m).
     bind_res (of_option Bad_request (parse_channel E view)) (\<lambda>c.
       let members = range_by_channel c (st_subscriptions st)
       in if members = [] then Inr (st, emplace_back failed_response m)
          else bind_res (respond (8 + (16 + 8 * 3) * length members)
                 ([Ref success_response, Emit [le64 (length members)]] @ concat (map channel_entry members)) m)
               (\<lambda>m'. Inr (st, m'))))"

section \<open>channels\<close>

record channel_stats =
  cs_channel :: bytes
  cs_read :: u64
  cs_write :: u64
  cs_count :: nat

text \<open>The walk over the index by channel: one step per channel, \<open>equal_range\<close> being the run of
  equal elements at the iterator.\<close>

definition stats_of :: "subscription list \<Rightarrow> channel_stats" where
  "stats_of members =
     \<lparr>cs_channel = sub_channel (hd members),
      cs_read = sum_list (map (\<lambda>s. m_accumulator (sm_read_bytes (sub_metrics s))) members),
      cs_write = sum_list (map (\<lambda>s. m_accumulator (sm_write_bytes (sub_metrics s))) members),
      cs_count = length members\<rparr>"

function channel_groups :: "subscription list \<Rightarrow> channel_stats list" where
  "channel_groups [] = []"
| "channel_groups (s # subs) =
     stats_of (s # takeWhile (\<lambda>x. sub_channel x = sub_channel s) subs) #
     channel_groups (dropWhile (\<lambda>x. sub_channel x = sub_channel s) subs)"
  by pat_completeness auto

termination
  by (relation "measure length") (auto simp: le_imp_less_Suc length_dropWhile_le)

definition channel_item :: "channel_stats \<Rightarrow> write_op list" where
  "channel_item c =
     [Emit [[of_nat (length (cs_channel c))]], Emit [word_to_le (cs_read c)],
      Emit [word_to_le (cs_write c)], Emit [le64 (cs_count c)]]"

definition handle_fragmented_channels_response :: "'v::len state \<times> message \<Rightarrow> ('v state \<times> message) res"
where
  "handle_fragmented_channels_response = (\<lambda>(st, m).
     let groups = channel_groups (by_channel_name (st_subscriptions st));
         fs = fragments_of 2048 (\<lambda>_. 25) groups;
         required = sum_list (map (\<lambda>c. 8 * 3 + 1 + length (cs_channel c)) groups) + length fs * 16
     in bind_res (respond (required + 8)
          (fragmented_ops channel_item (\<lambda>c. Emit [cs_channel c]) fs) m)
          (\<lambda>m'. Inr (st, m')))"

definition channels_command :: "('v::len, 'x) protocol_scheme \<Rightarrow> 'v command" where
  "channels_command E now ty view i = handle_fragmented_channels_response"

interpretation channel_item: serializer channel_item "\<lambda>c. 25 + length (cs_channel c)"
  "\<lambda>c. Emit [cs_channel c]"
  by unfold_locales (auto simp: channel_item_def)

section \<open>The event message\<close>

definition event_bytes :: "('v::len, 'x) protocol_scheme \<Rightarrow> bytes \<Rightarrow> bytes \<Rightarrow> bytes" where
  "event_bytes E channel payload =
     [request_code E Event_req, of_nat (length channel)] @
     word_to_le (of_nat (length payload) :: 'v word) @ channel @ payload"

lemma event_message_bytes:
  fixes E :: "('v::len, 'x) protocol_scheme"
  assumes "length channel < 256"
  shows "event_message E channel payload = Inr \<lparr>write_buffer = event_bytes E channel payload,
    generation = 1, batch = [In_buffer 1 0 (length (event_bytes E channel payload))]\<rparr>"
proof -
  let ?ps = "[[request_code E Event_req], [of_nat (length channel)],
    word_to_le (of_nat (length payload) :: 'v word),
    take (unat (of_nat (length channel) :: byte)) channel, payload]"
  have n: "unat (of_nat (length channel) :: byte) = length channel"
    using assms by (simp add: unat_of_nat)
  have c: "concat ?ps = event_bytes E channel payload"
    by (simp add: event_bytes_def n)
  have total: "1 + 1 + value_size E + length channel + length payload = length (concat ?ps)"
    by (simp add: n)
  have "copy_parts ?ps 0 (replicate (length (concat ?ps)) 0) = Inr (length (concat ?ps), concat ?ps)"
    by (subst copy_parts_ok) simp_all
  then show ?thesis by (simp only: event_message_def Let_def total c bind_res.simps prod.case)
qed

text \<open>Whatever the lengths, the copies stay within the buffer: the channel length is only ever cut.\<close>

lemma event_message_Inr:
  fixes E :: "('v::len, 'x) protocol_scheme"
  shows "\<exists>msg. event_message E channel payload = Inr msg"
proof -
  have "unat (of_nat (length channel) :: byte) \<le> length channel" by (simp add: unat_of_nat)
  then have "\<exists>x. copy_parts [[request_code E Event_req], [of_nat (length channel)],
      word_to_le (of_nat (length payload) :: 'v word),
      take (unat (of_nat (length channel) :: byte)) channel, payload] 0
      (replicate (1 + 1 + value_size E + length channel + length payload) 0) = Inr x"
    by (subst copy_parts_ok) simp_all
  then show ?thesis by (auto simp: event_message_def Let_def)
qed

lemma gather_event_message:
  assumes "length channel < 256" "event_message E channel payload = Inr msg"
  shows "gather E s msg = Some (event_bytes E channel payload)"
  using assms by (auto simp: event_message_bytes gather_def seg_bytes_def)

text \<open>An event is one frame. The message that \<open>publish\<close> builds puts on the wire the event type,
  the lengths, the channel and the payload, and the receive loop of another server, an agent, finds in
  those bytes exactly one message of exactly that size, whatever follows them.\<close>

theorem event_message_frame:
  fixes E :: "('v::len, 'x) protocol_scheme"
  assumes "request_codes_ok E" "layout_ok E" "8 dvd LENGTH('v)"
    and "header_size E Event_req = value_size E + 2"
    and "length channel < 256" "length payload < 2 ^ LENGTH('v)"
  shows "\<exists>msg. event_message E channel payload = Inr msg \<and>
    gather E s msg = Some (event_bytes E channel payload) \<and>
    get_message_size E (event_bytes E channel payload @ rest) = Inr (length (event_bytes E channel payload))"
proof -
  let ?b = "event_bytes E channel payload"
  have h: "hd ?b = request_code E Event_req" "?b \<noteq> []" by (simp_all add: event_bytes_def)
  have len: "length ?b = value_size E + 2 + length channel + length payload"
    by (simp add: event_bytes_def)
  have v: "take (value_size E) (drop 2 ?b) = word_to_le (of_nat (length payload) :: 'v word)"
    by (simp add: event_bytes_def)
  have "declared_size E Event_req ?b = length ?b"
    using assms(3-6) len v
    by (simp add: declared_size_def fixed_part_def le_to_word_to_le unat_of_nat del: value_size_simp)
      (simp add: event_bytes_def unat_of_nat)
  then have "get_message_size E ?b = Inr (length ?b)"
    using assms(1,2) h by (simp add: message_size_cases)
  moreover have "0 < length ?b" using h(2) by simp
  ultimately have "get_message_size E (?b @ rest) = Inr (length ?b)"
    by (rule get_message_size_append [OF assms(1,2)])
  then show ?thesis
    using event_message_bytes [OF assms(5), of E payload] gather_event_message [OF assms(5)] by blast
qed

section \<open>Publishing\<close>

text \<open>How often a connection is subscribed to a channel: subscribing twice is allowed.\<close>

definition subscription_count :: "uuid \<Rightarrow> bytes \<Rightarrow> subscription_container \<Rightarrow> nat" where
  "subscription_count i c subs = length (filter (\<lambda>s. sub_connection_id s = i \<and> sub_channel s = c) subs)"

definition on_id :: "uuid \<Rightarrow> (connection \<Rightarrow> connection) \<Rightarrow> connections \<Rightarrow> connections" where
  "on_id i f = map (\<lambda>(j, c). (j, if j = i then f c else c))"

lemma on_id_absent: "i \<notin> ids m \<Longrightarrow> on_id i f m = m"
  by (induction m) (auto simp: on_id_def)

lemma ids_on_id [simp]: "ids (on_id i f m) = ids m"
  unfolding on_id_def by (rule ids_simps(4))

definition one_home :: "'v::len state \<Rightarrow> bool" where
  "one_home st \<longleftrightarrow> (\<forall>k k' i. i \<in> ids (st_connections st k) \<longrightarrow> i \<in> ids (st_connections st k') \<longrightarrow> k = k')"

lemma publish_to_uniform:
  assumes "one_home st"
    and "sub_connection_id s \<in> live_ids st" "event_message E channel payload = Inr msg"
  shows "\<exists>st'. publish_to E scope channel payload s st = Inr st' \<and>
    (\<forall>k. st_connections st' k =
      on_id (sub_connection_id s) (deliver scope (of_nat (length payload)) msg) (st_connections st k)) \<and>
    st_subscriptions st' = st_subscriptions st \<and> st_storage st' = st_storage st \<and>
    st_next_node st' = st_next_node st \<and> st_commands st' = st_commands st"
proof -
  let ?i = "sub_connection_id s" and ?f = "deliver scope (of_nat (length payload)) msg"
  obtain k0 where k0: "?i \<in> ids (st_connections st k0)" using assms(2) by (auto simp: in_live_ids)
  then have "contains ?i (st_connections st k) \<longleftrightarrow> k = k0" for k
    using assms(1) unfolding one_home_def contains_iff by blast
  then have "filter (\<lambda>k. contains ?i (st_connections st k)) [Tcp, Unix, Agent_tcp, Agent_unix] = [k0]"
    by (cases k0) simp_all
  then have p: "publish_to E scope channel payload s st = Inr (on_connection k0 ?i ?f st)"
    using assms(3) by (simp add: publish_to_def)
  have "st_connections (on_connection k0 ?i ?f st) k = on_id ?i ?f (st_connections st k)" for k
  proof (cases "k = k0")
    case False
    then have "?i \<notin> ids (st_connections st k)" using assms(1) k0 unfolding one_home_def by blast
    then show ?thesis using False by (simp add: on_connection_def on_id_absent)
  qed (simp add: on_connection_def on_id_def)
  then show ?thesis using p by simp
qed

lemma publish_all:
  assumes "one_home st"
    and "sub_connection_id ` set subs \<subseteq> live_ids st" "event_message E channel payload = Inr msg"
  shows "\<exists>st'. fold_res (publish_to E scope channel payload) subs st = Inr st' \<and>
    (\<forall>k. st_connections st' k = map (\<lambda>(j, c).
      (j, (deliver scope (of_nat (length payload)) msg ^^ length (filter (\<lambda>s. sub_connection_id s = j) subs)) c))
      (st_connections st k)) \<and>
    st_subscriptions st' = st_subscriptions st \<and> st_storage st' = st_storage st \<and>
    st_next_node st' = st_next_node st \<and> st_commands st' = st_commands st"
  using assms(1,2)
proof (induction subs arbitrary: st)
  case Nil
  show ?case by (simp add: case_prod_unfold)
next
  case (Cons s subs)
  let ?f = "deliver scope (of_nat (length payload)) msg"
  obtain st1 where st1: "publish_to E scope channel payload s st = Inr st1"
    "\<And>k. st_connections st1 k = on_id (sub_connection_id s) ?f (st_connections st k)"
    "st_subscriptions st1 = st_subscriptions st" "st_storage st1 = st_storage st"
    "st_next_node st1 = st_next_node st" "st_commands st1 = st_commands st"
    using publish_to_uniform [OF Cons.prems(1) _ assms(3), where s = s and scope = scope] Cons.prems(2)
    by auto
  have live: "live_ids st1 = live_ids st" by (simp add: live_ids_def st1(2))
  obtain st2 where st2: "fold_res (publish_to E scope channel payload) subs st1 = Inr st2"
    "\<And>k. st_connections st2 k = map (\<lambda>(j, c).
      (j, (?f ^^ length (filter (\<lambda>s. sub_connection_id s = j) subs)) c)) (st_connections st1 k)"
    "st_subscriptions st2 = st_subscriptions st1" "st_storage st2 = st_storage st1"
    "st_next_node st2 = st_next_node st1" "st_commands st2 = st_commands st1"
    using Cons.IH [of st1] Cons.prems live by (auto simp: one_home_def st1(2))
  have "st_connections st2 k = map (\<lambda>(j, c).
      (j, (?f ^^ length (filter (\<lambda>x. sub_connection_id x = j) (s # subs))) c)) (st_connections st k)" for k
    unfolding st2(2) st1(2) on_id_def by (auto simp: funpow_swap1)
  then show ?case using st1 st2 by auto
qed

lemma deliver_fields [simp]:
  "c_id (deliver scope n m c) = c_id c" "c_kind (deliver scope n m c) = c_kind c"
  "c_type (deliver scope n m c) = c_type c" "c_posted (deliver scope n m c) = c_posted c @ [m]"
  "cm_commands (c_metrics (deliver scope n m c)) = cm_commands (c_metrics c)"
  "c_pending_writes (deliver scope n m c) = c_pending_writes c"
  by (simp_all add: deliver_def send_def on_network_def)

lemma delivered_posted: "c_posted ((deliver scope n m ^^ k) c) = c_posted c @ replicate k m"
  by (induction k) (simp_all add: replicate_append_same)

lemma length_filter_range:
  "length (filter (\<lambda>s. sub_connection_id s = j) (range_by_channel c subs)) = subscription_count j c subs"
  by (simp add: range_by_channel_eq subscription_count_def conj_commute)

lemma mark_readers_fields [simp]:
  "map sub_connection_id (mark_readers c n subs) = map sub_connection_id subs"
  "map sub_channel (mark_readers c n subs) = map sub_channel subs"
  by (simp_all add: mark_readers_def)

lemma publish_command_delivers:
  assumes "state_ok st" "parse_publish E view = Some r"
  defines "channel \<equiv> pub_channel r" and "payload \<equiv> pub_value r"
  shows "\<exists>msg st'. event_message E channel payload = Inr msg \<and>
    publish_command E now ty view i (st, m) = Inr (st', emplace_back
      (status (\<exists>s \<in> set (st_subscriptions st). sub_channel s = channel)) m) \<and>
    (\<forall>k. st_connections st' k = map (\<lambda>(j, c). (j, (deliver i (of_nat (length payload)) msg ^^
        subscription_count j channel (st_subscriptions st)) c)) (st_connections st k)) \<and>
    map sub_connection_id (st_subscriptions st') = map sub_connection_id (st_subscriptions st) \<and>
    st_storage st' = st_storage st \<and> st_next_node st' = st_next_node st \<and> st_commands st' = st_commands st"
proof -
  let ?subs = "st_subscriptions st" and ?n = "of_nat (length payload) :: u64"
  obtain msg where msg: "event_message E channel payload = Inr msg"
    using event_message_Inr by blast
  show ?thesis
  proof (cases "range_by_channel channel ?subs = []")
    case True
    then have none: "\<not> (\<exists>s \<in> set ?subs. sub_channel s = channel)"
      by (auto simp: range_by_channel_eq filter_empty_conv)
    then have zero: "subscription_count j channel ?subs = 0" for j
      by (auto simp: subscription_count_def filter_empty_conv)
    have "publish_command E now ty view i (st, m) = Inr (st, emplace_back (status False) m)"
      using True assms(2) by (simp add: publish_command_def channel_def)
    then show ?thesis using msg none zero by (simp add: case_prod_unfold)
  next
    case False
    then have some: "\<exists>s \<in> set ?subs. sub_channel s = channel"
      by (auto simp: range_by_channel_eq filter_empty_conv)
    let ?st = "on_subscriptions (mark_readers channel ?n) st"
    have c: "connections_ok st" using assms(1) by (simp add: state_ok_def)
    have one: "one_home ?st"
      using connections_okD(5) [OF c] unfolding one_home_def on_subscriptions_fields by blast
    have "live_ids ?st = live_ids st" by (simp add: live_ids_def)
    then have live: "sub_connection_id ` set (range_by_channel channel ?subs) \<subseteq> live_ids ?st"
      using assms(1) by (auto simp: state_ok_def subscriptions_ok_def)
    obtain st' where st': "fold_res (publish_to E i channel payload) (range_by_channel channel ?subs) ?st = Inr st'"
      "\<And>k. st_connections st' k = map (\<lambda>(j, c). (j, (deliver i ?n msg ^^
        subscription_count j channel ?subs) c)) (st_connections st k)"
      "st_subscriptions st' = mark_readers channel ?n ?subs" "st_storage st' = st_storage st"
      "st_next_node st' = st_next_node st" "st_commands st' = st_commands st"
      using publish_all [OF one live msg, where scope = i] by (auto simp: length_filter_range)
    have "publish_command E now ty view i (st, m) = Inr (st', emplace_back (status True) m)"
      using False assms(2) st'(1) by (simp add: publish_command_def channel_def payload_def)
    then show ?thesis using msg some st' by auto
  qed
qed

text \<open>C19: A published payload reaches every subscriber. In a well-formed state every connection, in
  whichever of the four maps, is sent the event once for each of its subscriptions to the channel and
  nothing otherwise; the publisher is told success exactly when the channel has a subscription. Every
  message is the same well-formed event frame.\<close>

theorem publish_reaches_subscribers:
  assumes "state_ok st" "parse_publish E view = Some r" "length (pub_channel r) < 256"
  shows "\<exists>msg st'. gather E s msg = Some (event_bytes E (pub_channel r) (pub_value r)) \<and>
    publish_command E now ty view i (st, m) = Inr (st', emplace_back
      (status (\<exists>s \<in> set (st_subscriptions st). sub_channel s = pub_channel r)) m) \<and>
    (\<forall>k. map (\<lambda>(j, c). (j, c_posted c)) (st_connections st' k) =
      map (\<lambda>(j, c). (j, c_posted c @ replicate (subscription_count j (pub_channel r) (st_subscriptions st)) msg))
        (st_connections st k)) \<and>
    st_storage st' = st_storage st"
proof -
  obtain msg st' where p: "event_message E (pub_channel r) (pub_value r) = Inr msg"
    "publish_command E now ty view i (st, m) = Inr (st', emplace_back
      (status (\<exists>s \<in> set (st_subscriptions st). sub_channel s = pub_channel r)) m)"
    "\<And>k. st_connections st' k = map (\<lambda>(j, c). (j, (deliver i (of_nat (length (pub_value r))) msg ^^
        subscription_count j (pub_channel r) (st_subscriptions st)) c)) (st_connections st k)"
    "st_storage st' = st_storage st"
    using publish_command_delivers [OF assms(1,2), of now ty i m] by blast
  have "map (\<lambda>(j, c). (j, c_posted c)) (st_connections st' k) =
      map (\<lambda>(j, c). (j, c_posted c @ replicate (subscription_count j (pub_channel r) (st_subscriptions st)) msg))
        (st_connections st k)" for k
    by (auto simp: p(3) delivered_posted)
  then show ?thesis using p gather_event_message [OF assms(3) p(1)] by blast
qed

section \<open>Unsubscribing\<close>

lemma state_ok_on_subscriptions:
  assumes "state_ok st" "sub_connection_id ` set (f (st_subscriptions st)) \<subseteq> live_ids st"
  shows "state_ok (on_subscriptions f st)"
proof -
  have "live_ids (on_subscriptions f st) = live_ids st" by (simp add: live_ids_def)
  then show ?thesis
    using assms by (simp add: state_ok_def entries_ok_def connections_ok_def subscriptions_ok_def)
qed

lemma subscriptions_ok_erase:
  assumes "state_ok st"
  shows "state_ok (on_subscriptions (filter P) st)"
  using assms by (intro state_ok_on_subscriptions) (auto simp: state_ok_def subscriptions_ok_def)

text \<open>After \<open>UNSUBSCRIBE\<close>, whatever the answer, the connection has no subscription to the
  channel, and every other subscription of anybody is kept in its place; the answer is the one of
  \<open>is_subscribed\<close>.\<close>

theorem unsubscribe_command_refines:
  assumes "state_ok st" "parse_unsubscribe E view = Some c"
  shows "\<exists>st'. unsubscribe_command E now ty view i (st, m) =
      Inr (st', emplace_back (status (is_subscribed i c (st_subscriptions st))) m) \<and>
    st_subscriptions st' = filter (\<lambda>s. sub_connection_id s \<noteq> i \<or> sub_channel s \<noteq> c) (st_subscriptions st) \<and>
    state_ok st'"
proof (cases "is_subscribed i c (st_subscriptions st)")
  case True
  have "erase_subscriptions i c = filter (\<lambda>s. sub_connection_id s \<noteq> i \<or> sub_channel s \<noteq> c)"
    by (simp add: erase_subscriptions_def fun_eq_iff)
  then show ?thesis
    using True assms(2) subscriptions_ok_erase [OF assms(1)] by (simp add: unsubscribe_command_def)
next
  case False
  then have "\<forall>s \<in> set (st_subscriptions st). sub_connection_id s \<noteq> i \<or> sub_channel s \<noteq> c"
    using is_subscribed_own by blast
  then show ?thesis using False assms by (simp add: unsubscribe_command_def filter_id_conv)
qed

text \<open>The answer of \<open>UNSUBSCRIBE\<close> can be about somebody else. A connection that never subscribed
  to the channel is told success, with nothing changed, as soon as some connection with a greater id
  is subscribed to it: the loop of \<open>is_subscribed\<close> runs past the connection's own range.\<close>

theorem unsubscribe_succeeds_for_another:
  assumes "parse_unsubscribe E view = Some c"
    and "s \<in> set (st_subscriptions st)" "sub_connection_id s = i"
    and "s' \<in> set (st_subscriptions st)" "i < sub_connection_id s'" "sub_channel s' = c"
    and "\<not> (\<exists>s \<in> set (st_subscriptions st). sub_connection_id s = i \<and> sub_channel s = c)"
  shows "unsubscribe_command E now ty view i (st, m) = Inr (st, emplace_back success_response m)"
proof -
  let ?subs = "st_subscriptions st"
  have "sorted (map sub_connection_id (by_connection_id ?subs))" by (simp add: by_connection_id_def)
  from dropWhile_sorted_key [OF this, of i] have "is_subscribed i c ?subs"
    using assms(2-6) by (force simp: is_subscribed_def Let_def)
  moreover have "erase_subscriptions i c ?subs = ?subs"
    using assms(7) by (auto simp: erase_subscriptions_def filter_id_conv)
  then have "on_subscriptions (erase_subscriptions i c) st = st" by (simp add: on_subscriptions_def)
  ultimately show ?thesis using assms(1) by (simp add: unsubscribe_command_def status_def)
qed

section \<open>CHANNELS\<close>

definition channel_record :: "channel_stats \<Rightarrow> bytes" where
  "channel_record c = [of_nat (length (cs_channel c))] @ word_to_le (cs_read c) @
     word_to_le (cs_write c) @ le64 (cs_count c)"

lemma stats_of_channel [simp]: "cs_channel (stats_of (s # ss)) = sub_channel s"
  by (simp add: stats_of_def)

lemma sorted_runs:
  fixes f :: "'a \<Rightarrow> 'b::linorder"
  assumes "\<forall>y \<in> set xs. k \<le> f y" "sorted (map f xs)"
  shows "takeWhile (\<lambda>y. f y = k) xs = filter (\<lambda>y. f y = k) xs"
    and "dropWhile (\<lambda>y. f y = k) xs = filter (\<lambda>y. k < f y) xs"
proof -
  have "takeWhile (\<lambda>y. f y = k) xs = filter (\<lambda>y. f y = k) xs \<and>
      dropWhile (\<lambda>y. f y = k) xs = filter (\<lambda>y. k < f y) xs"
    using assms
  proof (induction xs)
    case (Cons y ys)
    show ?case
    proof (cases "f y = k")
      case True
      then show ?thesis using Cons by simp
    next
      case False
      then have lt: "k < f y" using Cons.prems(1) by (simp add: order.order_iff_strict)
      then have "\<forall>z \<in> set ys. k < f z" using Cons.prems(2) by (auto intro: less_le_trans)
      then have "filter (\<lambda>z. f z = k) ys = []" "filter (\<lambda>z. k < f z) ys = ys"
        by (auto simp: filter_empty_conv filter_id_conv)
      then show ?thesis using False lt by simp
    qed
  qed simp
  then show "takeWhile (\<lambda>y. f y = k) xs = filter (\<lambda>y. f y = k) xs"
    "dropWhile (\<lambda>y. f y = k) xs = filter (\<lambda>y. k < f y) xs" by simp_all
qed

lemma channel_groups_sorted:
  assumes "sorted (map sub_channel xs)"
  shows "cs_channel ` set (channel_groups xs) = sub_channel ` set xs \<and>
    sorted_wrt (<) (map cs_channel (channel_groups xs)) \<and>
    (\<forall>g \<in> set (channel_groups xs). g = stats_of (filter (\<lambda>s. sub_channel s = cs_channel g) xs))"
  using assms
proof (induction xs rule: channel_groups.induct)
  case 1
  show ?case by simp
next
  case (2 s subs)
  let ?d = "filter (\<lambda>x. sub_channel s < sub_channel x) subs"
  have ge: "\<forall>y \<in> set subs. sub_channel s \<le> sub_channel y" and srt: "sorted (map sub_channel subs)"
    using 2(2) by simp_all
  note runs = sorted_runs [OF ge srt]
  have d: "sorted (map sub_channel ?d)" using srt by (rule sorted_filter)
  have IH: "cs_channel ` set (channel_groups ?d) = sub_channel ` set ?d"
    "sorted_wrt (<) (map cs_channel (channel_groups ?d))"
    "\<And>g. g \<in> set (channel_groups ?d) \<Longrightarrow> g = stats_of (filter (\<lambda>s. sub_channel s = cs_channel g) ?d)"
    using 2(1) d unfolding runs(2) by blast+
  have step: "channel_groups (s # subs) =
      stats_of (filter (\<lambda>x. sub_channel x = sub_channel s) (s # subs)) # channel_groups ?d"
    by (simp add: runs)
  have above: "sub_channel s < cs_channel g" if "g \<in> set (channel_groups ?d)" for g
  proof -
    have "cs_channel g \<in> sub_channel ` set ?d" using that IH(1) by blast
    then show ?thesis by auto
  qed
  have "g = stats_of (filter (\<lambda>x. sub_channel x = cs_channel g) (s # subs))"
    if "g \<in> set (channel_groups ?d)" for g
  proof -
    have "filter (\<lambda>x. sub_channel x = cs_channel g) ?d = filter (\<lambda>x. sub_channel x = cs_channel g) (s # subs)"
      using above [OF that] by (auto intro!: filter_cong)
    then show ?thesis using IH(3) [OF that] by simp
  qed
  moreover have "insert (sub_channel s) (sub_channel ` set ?d) = sub_channel ` set (s # subs)"
    using ge by (auto simp: order.order_iff_strict image_iff)
  moreover have "sorted_wrt (<) (map cs_channel (channel_groups (s # subs)))"
    using IH(2) above unfolding step by simp
  ultimately show ?case using IH(1) unfolding step by simp
qed

lemma channels_command_message:
  assumes "unwritten m"
  shows "\<exists>m' groups. channels_command E now ty view i (st, m) = Inr (st, m') \<and>
    gather E s m' = opt_append (gather E s m)
      (Some (fragmented_bytes channel_record cs_channel (fragments_of 2048 (\<lambda>_. 25) groups))) \<and>
    sorted_wrt (<) (map cs_channel groups) \<and>
    cs_channel ` set groups = sub_channel ` set (st_subscriptions st) \<and>
    (\<forall>g \<in> set groups. cs_count g =
      length (filter (\<lambda>x. sub_channel x = cs_channel g) (st_subscriptions st)))"
proof -
  let ?sorted = "by_channel_name (st_subscriptions st)"
  let ?groups = "channel_groups ?sorted"
  let ?fs = "fragments_of 2048 (\<lambda>_. 25) ?groups"
  let ?ops = "fragmented_ops channel_item (\<lambda>c. Emit [cs_channel c]) ?fs"
  let ?n = "sum_list (map (\<lambda>c. 8 * 3 + 1 + length (cs_channel c)) ?groups) + length ?fs * 16 + 8"
  have "sorted (map sub_channel ?sorted)" by (simp add: by_channel_name_def)
  note groups = channel_groups_sorted [OF this]
  have "8 + 16 * length ?fs + sum_list (map (\<lambda>c. 25 + length (cs_channel c)) (concat ?fs)) \<le> ?n"
    by (simp add: fragments_of_concat)
  then obtain m' where m': "respond ?n ?ops m = Inr m'"
    "gather E s m' = opt_append (gather E s m) (ops_bytes E s ?ops)"
    using channel_item.fragmented_answer [OF assms, of ?fs ?n E s] by blast
  have "ops_bytes E s ?ops = Some (fragmented_bytes channel_record cs_channel ?fs)"
    by (rule fragment_ops_bytes) (simp_all add: channel_item_def channel_record_def)
  moreover have "cs_count g = length (filter (\<lambda>x. sub_channel x = cs_channel g) (st_subscriptions st))"
    if "g \<in> set ?groups" for g
  proof -
    have "cs_count g = length (filter (\<lambda>x. sub_channel x = cs_channel g) ?sorted)"
      using groups that by (metis channel_stats.select_convs(4) stats_of_def)
    then show ?thesis by (simp add: by_channel_name_def sort_key_stable)
  qed
  moreover have "channels_command E now ty view i (st, m) = Inr (st, m')"
    using m'(1) by (simp add: channels_command_def handle_fragmented_channels_response_def Let_def)
  ultimately show ?thesis using m'(2) groups by (intro exI [of _ m'] exI [of _ ?groups]) simp
qed

text \<open>\<open>CHANNELS\<close> reports every channel once, in order, with its number of subscriptions. The
  buffer reserved by the first pass is exactly what the second pass fills, and the bytes on the wire
  are the fragments of the channels' records and names.\<close>

theorem channels_command_answers:
  assumes "unwritten m"
  shows "\<exists>m' groups. channels_command E now ty view i (st, m) = Inr (st, m') \<and>
    gather E s m' = opt_append (gather E s m)
      (Some (fragmented_bytes channel_record cs_channel (fragments_of 2048 (\<lambda>_. 25) groups))) \<and>
    sorted_wrt (<) (map cs_channel groups) \<and>
    cs_channel ` set groups = sub_channel ` set (st_subscriptions st) \<and>
    (\<forall>g \<in> set groups. cs_count g =
      length (filter (\<lambda>x. sub_channel x = cs_channel g) (st_subscriptions st)))"
  by (rule channels_command_message [OF assms])

section \<open>Witnesses\<close>

text \<open>Two TCP clients, 1 and 2, of which 2 has subscribed to \<open>[5]\<close>.\<close>

definition client :: "uuid \<Rightarrow> connection" where
  "client i = make_connection i Tcp_socket Client 0 [] 0"

definition two_clients :: "16 state" where
  "two_clients = on_subscriptions (\<lambda>subs. subs @ [make_subscription 0 2 [5]])
     (join (sample_protocol :: 16 protocol) 0 (client 2)
       (join (sample_protocol :: 16 protocol) 0 (client 1) (make_state 0)))"

lemma client_fields [simp]:
  "c_id (client i) = i" "home (client i) = Tcp" "c_posted (client i) = []"
  "cm_commands (c_metrics (client i)) = replicate 32 new_metric"
  by (simp_all add: client_def make_connection_def home_def new_connection_metrics_def)

lemma two_clients_ok: "state_ok two_clients"
proof -
  let ?E = "sample_protocol :: 16 protocol"
  have empty: "live_ids (make_state 0 :: 16 state) = {}"
    by (simp add: live_ids_def make_state_def)
  define st1 where "st1 = join ?E 0 (client 1) (make_state 0)"
  define st2 where "st2 = join ?E 0 (client 2) st1"
  have one: "state_ok st1" unfolding st1_def
    by (rule join_ok [OF make_state_ok]) (simp_all add: empty)
  have live1: "live_ids st1 = {1}" by (simp add: st1_def live_ids_join empty)
  have two: "state_ok st2" unfolding st2_def
    by (rule join_ok [OF one]) (simp_all add: live1)
  have live2: "live_ids st2 = {2, 1}" by (simp add: st2_def live_ids_join live1)
  have "sub_connection_id ` set (st_subscriptions st2) \<subseteq> live_ids st2"
    using two by (simp add: state_ok_def subscriptions_ok_def)
  then have "state_ok (on_subscriptions (\<lambda>subs. subs @ [make_subscription 0 2 [5]]) st2)"
    by (intro state_ok_on_subscriptions two) (simp add: live2)
  then show ?thesis by (simp add: two_clients_def st2_def st1_def)
qed

lemma two_clients_subscriptions:
  "st_subscriptions two_clients =
     [make_subscription 0 1 (uuid_hex 1), make_subscription 0 1 star_channel,
      make_subscription 0 2 (uuid_hex 2), make_subscription 0 2 star_channel, make_subscription 0 2 [5]]"
  by (simp add: two_clients_def make_state_def)

lemma length_uuid_hex [simp]: "length (uuid_hex i) = 32"
proof -
  have "length (concat (map (\<lambda>b. [f b, g b]) bs)) = 2 * length bs" for f g :: "byte \<Rightarrow> byte" and bs
    by (induction bs) simp_all
  then show ?thesis by (simp add: uuid_hex_def uuid_bytes_def)
qed

lemma uuid_hex_long: "uuid_hex i \<noteq> [x]"
  by (metis length_uuid_hex length_Cons list.size(3) numeral_eq_one_iff semiring_norm(83) One_nat_def)

theorem event_message_frame_witness:
  "\<exists>msg. event_message (sample_protocol :: 16 protocol) [5] [7, 8] = Inr msg \<and>
     get_message_size (sample_protocol :: 16 protocol)
       (event_bytes (sample_protocol :: 16 protocol) [5] [7, 8] @ [1, 2]) = Inr 7"
proof -
  have "length (event_bytes (sample_protocol :: 16 protocol) [5] [7, 8]) = 7" by (simp add: event_bytes_def)
  moreover have "header_size (sample_protocol :: 16 protocol) Event_req = value_size (sample_protocol :: 16 protocol) + 2"
    by simp
  ultimately show ?thesis
    using event_message_frame [of "sample_protocol :: 16 protocol" "[5]" "[7, 8]" "[]" "[1, 2]",
        OF sample_request_codes_ok sample_layout_ok]
    by auto
qed

lemma parse_five:
  "parse_publish (sample_protocol :: 16 protocol) [13, 1, 2, 0, 5, 7, 8] =
     Some \<lparr>pub_channel = [5], pub_value = [7, 8]\<rparr>"
  "parse_unsubscribe (sample_protocol :: 16 protocol) [12, 1, 5] = Some [5]"
  by (simp_all add: sample_protocol_def sample_sized_def field_def byte_at_def le_to_word_def)

theorem publish_reaches_subscribers_witness:
  "\<exists>msg st'. gather (sample_protocol :: 16 protocol) [] msg = Some [19, 1, 2, 0, 5, 7, 8] \<and>
    publish_command (sample_protocol :: 16 protocol) 9 13 [13, 1, 2, 0, 5, 7, 8] 1 (two_clients, new_message) =
      Inr (st', emplace_back (status True) new_message) \<and>
    set (map (\<lambda>(j, c). (j, c_posted c)) (st_connections st' Tcp)) = {(1, []), (2, [msg])}"
proof -
  let ?E = "sample_protocol :: 16 protocol"
  have n: "subscription_count 1 [5] (st_subscriptions two_clients) = 0"
    "subscription_count 2 [5] (st_subscriptions two_clients) = 1"
    by (simp_all add: subscription_count_def two_clients_subscriptions uuid_hex_long star_channel_def)
  have c: "set (st_connections two_clients Tcp) = {(1, client 1), (2, client 2)}"
    by (simp add: two_clients_def make_state_def insert_commute)
  have b: "event_bytes ?E [5] [7, 8] = [19, 1, 2, 0, 5, 7, 8]"
    by (simp add: event_bytes_def word_to_le_16)
  obtain msg st' where p: "gather ?E [] msg = Some (event_bytes ?E [5] [7, 8])"
    "publish_command ?E 9 13 [13, 1, 2, 0, 5, 7, 8] 1 (two_clients, new_message) = Inr (st', emplace_back
      (status (\<exists>s \<in> set (st_subscriptions two_clients). sub_channel s = [5])) new_message)"
    "map (\<lambda>(j, c). (j, c_posted c)) (st_connections st' Tcp) =
      map (\<lambda>(j, c). (j, c_posted c @ replicate (subscription_count j [5] (st_subscriptions two_clients)) msg))
        (st_connections two_clients Tcp)"
    using publish_reaches_subscribers [OF two_clients_ok parse_five(1), of "[]" 9 13 1 new_message] by auto
  have "set (map (\<lambda>(j, c). (j, c_posted c)) (st_connections st' Tcp)) = {(1, []), (2, [msg])}"
    unfolding p(3) set_map c by (simp add: n)
  then show ?thesis using p(1,2) b by (auto simp: two_clients_subscriptions)
qed

theorem unsubscribe_command_refines_witness:
  "\<exists>st'. unsubscribe_command (sample_protocol :: 16 protocol) 9 12 [12, 1, 5] 2 (two_clients, new_message) =
      Inr (st', emplace_back (status True) new_message) \<and> length (st_subscriptions st') = 4"
proof -
  have "is_subscribed 2 [5] (st_subscriptions two_clients)"
    by (rule is_subscribed_own [of "make_subscription 0 2 [5]"]) (simp_all add: two_clients_subscriptions)
  then show ?thesis
    using unsubscribe_command_refines [OF two_clients_ok parse_five(2), of 9 12 2 new_message]
    by (auto simp: two_clients_subscriptions uuid_hex_long star_channel_def)
qed

theorem unsubscribe_succeeds_for_another_witness:
  "unsubscribe_command (sample_protocol :: 16 protocol) 9 12 [12, 1, 5] 1 (two_clients, new_message) =
     Inr (two_clients, emplace_back success_response new_message)"
  by (rule unsubscribe_succeeds_for_another [OF parse_five(2),
        of "make_subscription 0 1 star_channel" _ _ "make_subscription 0 2 [5]"])
    (auto simp: two_clients_subscriptions uuid_hex_long star_channel_def)

theorem channels_command_answers_witness:
  "\<exists>m' groups. channels_command (sample_protocol :: 16 protocol) 9 15 [15] 1 (two_clients, new_message) =
      Inr (two_clients, m') \<and>
    gather (sample_protocol :: 16 protocol) [] m' =
      Some (fragmented_bytes channel_record cs_channel (fragments_of 2048 (\<lambda>_. 25) groups)) \<and>
    cs_channel ` set groups = {uuid_hex 1, uuid_hex 2, star_channel, [5]}"
  using channels_command_answers [OF unwritten_new, of "sample_protocol :: 16 protocol" 9 15 "[15]" 1 two_clients "[]"]
  by (auto simp: two_clients_subscriptions)

end
