(* ===== verification/Commands_Info.thy ===== *)
theory Commands_Info
  imports Commands_Channels
begin

text \<open>
  The commands that describe the server and its connections: \<open>whoami\<close>, \<open>connection\<close>,
  \<open>connections\<close> and \<open>info\<close>.
\<close>

section \<open>whoami\<close>

definition whoami_command :: "('v::len, 'x) protocol_scheme \<Rightarrow> 'v command" where
  "whoami_command E now ty view i = (\<lambda>(st, m).
     bind_res (respond 16 [Ref success_response, Emit [uuid_bytes i]] m) (\<lambda>m'. Inr (st, m')))"

section \<open>The record of a connection\<close>

text \<open>\<open>commands_[static_cast<std::size_t>(type)]\<close> on the 32 metrics.\<close>

definition command_metric :: "('v::len, 'x) protocol_scheme \<Rightarrow> metric list \<Rightarrow> request_types \<Rightarrow> metric res"
where
  "command_metric E ms r =
     (if unat (request_code E r) < length ms then Inr (ms ! unat (request_code E r)) else Inl Out_of_bounds)"

fun collect_res :: "('a \<Rightarrow> 'b res) \<Rightarrow> 'a list \<Rightarrow> 'b list res" where
  "collect_res f [] = Inr []"
| "collect_res f (x # xs) = bind_res (f x) (\<lambda>y. bind_res (collect_res f xs) (\<lambda>ys. Inr (y # ys)))"

definition monitored_request_types :: "request_types list" where
  "monitored_request_types =
     [Insert_req, Set_req, Query_req, Get_req, Update_req, Purge_req, List_req, Info_req, Stat_req,
      Stats_req, Publish_req, Subscribe_req, Unsubscribe_req, Connections_req, Connection_req,
      Channels_req, Channel_req, Whoami_req]"

fun type_byte :: "connection_type \<Rightarrow> byte" where
  "type_byte Client = 0"
| "type_byte Agent = 1"

fun kind_byte :: "connection_kind \<Rightarrow> byte" where
  "kind_byte Tcp_socket = 0"
| "kind_byte Unix_socket = 1"

definition ip_padded :: "bytes \<Rightarrow> bytes" where
  "ip_padded ip = take 16 ip @ replicate (16 - length ip) 0"

text \<open>All parts are written one after the other and one buffer covers them: one operation.\<close>

definition write_connections_entry_to_buffer ::
  "('v::len, 'x) protocol_scheme \<Rightarrow> connection \<Rightarrow> write_op res" where
  "write_connections_entry_to_buffer E c =
     (let net = cm_network (c_metrics c); mem = cm_memory (c_metrics c)
      in bind_res (collect_res (command_metric E (cm_commands (c_metrics c))) monitored_request_types)
        (\<lambda>service. Inr (Emit
          ([uuid_bytes (c_id c), [type_byte (c_type c)], [kind_byte (c_kind c)],
            [if 58 \<in> set (c_ip c) then 6 else 4], ip_padded (c_ip c), word_to_le (c_port c)] @
           map word_to_le [c_connected_at c, m_accumulator (net_read_bytes net),
             m_accumulator (net_write_bytes net), m_accumulator (net_published_bytes net),
             m_accumulator (net_received_bytes net), m_accumulator (mem_allocated_bytes mem),
             m_accumulator (mem_consumed_bytes mem)] @
           map (\<lambda>x. word_to_le (m_accumulator x)) service))))"

definition connection_measure :: nat where "connection_measure = 237"

section \<open>connection\<close>

text \<open>The request's id, copied over 16 zero bytes; a \<open>uuid\<close> is a big-endian number.\<close>

definition request_uuid :: "bytes \<Rightarrow> uuid res" where
  "request_uuid b =
     (if length b \<le> 16 then Inr (le_to_word (rev (b @ replicate (16 - length b) 0))) else Inl Out_of_bounds)"

definition connection_command :: "('v::len, 'x) protocol_scheme \<Rightarrow> 'v command" where
  "connection_command E now ty view i = (\<lambda>(st, m).
     bind_res (of_option Bad_request (parse_connection E view)) (\<lambda>b.
     bind_res (request_uuid b) (\<lambda>j.
       case List.find (\<lambda>k. contains j (st_connections st k)) [Tcp, Unix, Agent_unix, Agent_tcp] of
         None \<Rightarrow> Inr (st, emplace_back failed_response m)
       | Some k \<Rightarrow>
           bind_res (write_connections_entry_to_buffer E (the (map_of (st_connections st k) j))) (\<lambda>op.
           bind_res (respond 237 [Ref success_response, op] m) (\<lambda>m'. Inr (st, m'))))))"

section \<open>connections\<close>

text \<open>Within a fragment the TCP connections come before the Unix ones.\<close>

definition is_tcp :: "connection \<Rightarrow> bool" where
  "is_tcp c \<longleftrightarrow> c_kind c = Tcp_socket"

definition tcp_first :: "(connection \<times> write_op) list \<Rightarrow> write_op list" where
  "tcp_first f = map snd (filter (\<lambda>(c, _). is_tcp c) f @ filter (\<lambda>(c, _). \<not> is_tcp c) f)"

fun connection_fragment_ops :: "nat \<Rightarrow> (connection \<times> write_op) list list \<Rightarrow> write_op list" where
  "connection_fragment_ops i [] = []"
| "connection_fragment_ops i (f # fs) =
     [Emit [le64 i], Emit [le64 (length f)]] @ tcp_first f @ connection_fragment_ops (Suc i) fs"

definition all_connections :: "'v::len state \<Rightarrow> connection list" where
  "all_connections st = concat (map (\<lambda>k. map snd (st_connections st k)) [Tcp, Unix, Agent_tcp, Agent_unix])"

definition handle_fragmented_connections_response ::
  "('v::len, 'x) protocol_scheme \<Rightarrow> 'v state \<times> message \<Rightarrow> ('v state \<times> message) res" where
  "handle_fragmented_connections_response E = (\<lambda>(st, m).
     let cs = all_connections st
     in bind_res (collect_res (write_connections_entry_to_buffer E) cs) (\<lambda>ops.
        let fs = fragments_of 2048 (\<lambda>_. connection_measure) (zip cs ops);
            required = 8 + connection_measure * length cs + length fs * 8 * 2
        in bind_res (respond required
             ([Ref success_response, Emit [le64 (length fs)]] @ connection_fragment_ops 1 fs) m)
             (\<lambda>m'. Inr (st, m'))))"

definition connections_command :: "('v::len, 'x) protocol_scheme \<Rightarrow> 'v command" where
  "connections_command E now ty view i = handle_fragmented_connections_response E"

section \<open>info\<close>

definition info_request_types :: "request_types list" where
  "info_request_types =
     [Insert_req, Query_req, Update_req, Purge_req, Get_req, Set_req, List_req, Info_req, Stats_req,
      Stat_req, Subscribe_req, Unsubscribe_req, Publish_req, Channel_req, Channels_req, Whoami_req,
      Connection_req, Connections_req]"

text \<open>\<open>get_version()\<close> is \<open>5.0.11\<close>.\<close>

definition version :: bytes where "version = [53, 46, 48, 46, 49, 49]"

definition sum_over :: "('a \<Rightarrow> u64) \<Rightarrow> 'a list \<Rightarrow> u64" where
  "sum_over f xs = sum_list (map f xs)"

text \<open>The totals of requests, of bytes read and written, of keys and of subscriptions.\<close>

definition info_requests :: "u64 \<Rightarrow> 'v::len state \<Rightarrow> metric list \<Rightarrow> u64 list" where
  "info_requests now st per_type =
     [word_of_int (sint now sdiv 1000000000), sum_over m_accumulator (st_commands st),
      sum_over m_per_minute (st_commands st)] @
     concat (map (\<lambda>m. [m_accumulator m, m_per_minute m]) per_type)"

definition info_network :: "'v::len state \<Rightarrow> u64 list" where
  "info_network st =
     (let cs = concat (map (\<lambda>k. map snd (st_connections st k)) [Tcp, Agent_tcp, Unix, Agent_unix]);
          net = (\<lambda>f. sum_over (\<lambda>c. f (cm_network (c_metrics c))) cs)
      in [net (m_accumulator \<circ> net_read_bytes), net (m_per_minute \<circ> net_read_bytes),
          net (m_accumulator \<circ> net_write_bytes), net (m_per_minute \<circ> net_write_bytes)])"

definition info_storage :: "('v::len, 'x) protocol_scheme \<Rightarrow> 'v storage \<Rightarrow> u64 list" where
  "info_storage E s =
     (let ws = map snd s;
          counters = filter (\<lambda>w. e_type (w_entry w) = Counter) ws;
          buffers = filter (\<lambda>w. e_type (w_entry w) \<noteq> Counter) ws
      in [of_nat (length ws), of_nat (length counters), of_nat (length buffers),
          of_nat (value_size E * length counters),
          of_nat (sum_list (map (\<lambda>w. length (e_buffer (w_entry w))) buffers))])"

definition info_clients :: "'v::len state \<Rightarrow> u64 list" where
  "info_clients st =
     (let subs = st_subscriptions st
      in [of_nat (length subs), of_nat (length (remdups (map sub_channel subs))), st_started_at st,
          of_nat (sum_list (map (\<lambda>k. length (st_connections st k)) [Tcp, Unix, Agent_tcp, Agent_unix]))])"

definition info_ops :: "('v::len, 'x) protocol_scheme \<Rightarrow> u64 \<Rightarrow> 'v state \<Rightarrow> metric list \<Rightarrow> write_op list" where
  "info_ops E now st per_type =
     [Ref success_response] @
     map (\<lambda>x. Emit [word_to_le x])
       (info_requests now st per_type @ info_network st @ info_storage E (st_storage st) @ info_clients st) @
     [Emit [take 16 version @ replicate (16 - length version) 0]]"

lemmas info_defs = info_requests_def info_network_def info_storage_def info_clients_def

definition info_command :: "('v::len, 'x) protocol_scheme \<Rightarrow> 'v command" where
  "info_command E now ty view i = (\<lambda>(st, m).
     bind_res (collect_res (command_metric E (st_commands st)) info_request_types) (\<lambda>per_type.
     bind_res (respond 432 (info_ops E now st per_type) m) (\<lambda>m'. Inr (st, m'))))"

section \<open>The sizes fit\<close>

lemma collect_res_Inr:
  "(\<And>x. x \<in> set xs \<Longrightarrow> f x = Inr (g x)) \<Longrightarrow> collect_res f xs = Inr (map g xs)"
  by (induction xs) auto

lemma command_metrics:
  assumes "request_codes_ok E" "length ms = 32"
  shows "collect_res (command_metric E ms) rs = Inr (map (\<lambda>r. ms ! unat (request_code E r)) rs)"
  using assms by (intro collect_res_Inr) (simp add: command_metric_def request_codes_ok_def)

definition connection_bytes :: "('v::len, 'x) protocol_scheme \<Rightarrow> connection \<Rightarrow> bytes" where
  "connection_bytes E c =
     (let net = cm_network (c_metrics c); mem = cm_memory (c_metrics c);
          ms = cm_commands (c_metrics c)
      in uuid_bytes (c_id c) @ [type_byte (c_type c), kind_byte (c_kind c)] @
         [if 58 \<in> set (c_ip c) then 6 else 4] @ ip_padded (c_ip c) @ word_to_le (c_port c) @
         concat (map word_to_le [c_connected_at c, m_accumulator (net_read_bytes net),
             m_accumulator (net_write_bytes net), m_accumulator (net_published_bytes net),
             m_accumulator (net_received_bytes net), m_accumulator (mem_allocated_bytes mem),
             m_accumulator (mem_consumed_bytes mem)]) @
         concat (map (\<lambda>r. word_to_le (m_accumulator (ms ! unat (request_code E r)))) monitored_request_types))"

lemma length_concat_le: "length (concat (map (\<lambda>x. word_to_le (f x :: u64)) xs)) = 8 * length xs"
  by (induction xs) simp_all

lemma length_connection_bytes: "length (connection_bytes E c) = 237"
  by (simp add: connection_bytes_def Let_def uuid_bytes_def ip_padded_def length_concat_le
      monitored_request_types_def)

lemma write_connection:
  assumes "request_codes_ok E" "length (cm_commands (c_metrics c)) = 32"
  shows "\<exists>ps. write_connections_entry_to_buffer E c = Inr (Emit ps) \<and> concat ps = connection_bytes E c"
  by (simp add: write_connections_entry_to_buffer_def connection_bytes_def command_metrics [OF assms]
      Let_def comp_def)

lemma info_ops_size:
  assumes "length per_type = 18"
  shows "ops_size (info_ops E now st per_type) = 432" "list_all op_ok (info_ops E now st per_type)"
proof -
  have "ops_size (map (\<lambda>x. Emit [word_to_le (x :: u64)]) xs) = 8 * length xs" for xs
    by (induction xs) simp_all
  moreover have "length (concat (map (\<lambda>m. [m_accumulator m, m_per_minute m]) ms)) = 2 * length ms"
    for ms :: "metric list"
    by (induction ms) simp_all
  ultimately show "ops_size (info_ops E now st per_type) = 432"
    using assms by (simp add: info_ops_def info_defs Let_def version_def)
  show "list_all op_ok (info_ops E now st per_type)"
    by (simp add: info_ops_def info_defs Let_def list_all_iff)
qed

section \<open>CONNECTION, CONNECTIONS, WHOAMI and INFO\<close>

lemma length_uuid_bytes [simp]: "length (uuid_bytes i) = 16"
  by (simp add: uuid_bytes_def)

lemma request_uuid_bytes: "request_uuid (uuid_bytes i) = Inr i"
proof -
  have "(le_to_word (word_to_le i) :: uuid) = i" by (rule le_to_word_to_le) (simp add: dvd_def)
  then show ?thesis by (simp add: request_uuid_def uuid_bytes_def)
qed

lemma find_map_Some:
  assumes "one_home st" "i \<in> ids (st_connections st k)"
  shows "List.find (\<lambda>k. contains i (st_connections st k)) [Tcp, Unix, Agent_unix, Agent_tcp] = Some k"
proof -
  have "contains i (st_connections st k') \<longleftrightarrow> k' = k" for k'
    using assms unfolding one_home_def contains_iff by blast
  then show ?thesis by (cases k) simp_all
qed

lemma connections_ok_home: "connections_ok st \<Longrightarrow> one_home st"
  unfolding one_home_def using connections_okD(5) by blast

lemma connection_command_lookup:
  assumes "state_ok st" "request_codes_ok E" "unwritten m"
    and b: "parse_connection E view = Some b" "request_uuid b = Inr i"
  shows "i \<notin> live_ids st \<Longrightarrow>
      connection_command E now ty view j (st, m) = Inr (st, emplace_back failed_response m)"
    and "(i, c) \<in> set (st_connections st k) \<Longrightarrow>
      \<exists>m'. connection_command E now ty view j (st, m) = Inr (st, m') \<and>
        gather E s m' = opt_append (gather E s m) (Some ([1] @ connection_bytes E c))"
proof -
  assume "i \<notin> live_ids st"
  then have "List.find (\<lambda>k. contains i (st_connections st k)) [Tcp, Unix, Agent_unix, Agent_tcp] = None"
    by (auto simp: find_None_iff contains_iff in_live_ids)
  then show "connection_command E now ty view j (st, m) = Inr (st, emplace_back failed_response m)"
    using b by (simp add: connection_command_def)
next
  assume c: "(i, c) \<in> set (st_connections st k)"
  have ok: "connections_ok st" using assms(1) by (simp add: state_ok_def)
  obtain ps where ps: "write_connections_entry_to_buffer E c = Inr (Emit ps)" "concat ps = connection_bytes E c"
    using write_connection [OF assms(2), of c] connections_okD(4) [OF ok c] by blast
  have f: "List.find (\<lambda>k. contains i (st_connections st k)) [Tcp, Unix, Agent_unix, Agent_tcp] = Some k"
    by (rule find_map_Some [OF connections_ok_home [OF ok] in_idsI [OF c]])
  have m: "map_of (st_connections st k) i = Some c"
    using c connections_okD(1) [OF ok] by simp
  have "\<exists>m'. respond 237 [Ref success_response, Emit ps] m = Inr m' \<and>
      gather E s m' = opt_append (gather E s m) (Some ([1] @ connection_bytes E c))"
    by (rule respond_answer [OF assms(3)]) (simp_all add: ps(2) length_connection_bytes)
  then show "\<exists>m'. connection_command E now ty view j (st, m) = Inr (st, m') \<and>
      gather E s m' = opt_append (gather E s m) (Some ([1] @ connection_bytes E c))"
    using b by (auto simp: connection_command_def f m ps(1) simp del: find.simps)
qed

lemma whoami_message:
  assumes "unwritten m"
  shows "\<exists>m'. whoami_command E now ty view i (st, m) = Inr (st, m') \<and>
      gather E s m' = opt_append (gather E s m) (Some ([1] @ uuid_bytes i))"
  using respond_answer [OF assms, of "[Ref success_response, Emit [uuid_bytes i]]" 16 E s]
  by (auto simp: whoami_command_def)

lemma whoami_connection_messages:
  assumes "state_ok st" "request_codes_ok E" "unwritten m" "parse_connection E view = Some (uuid_bytes i)"
  shows "(\<exists>m'. whoami_command E now ty view' i (st, m) = Inr (st, m') \<and>
      gather E s m' = opt_append (gather E s m) (Some ([1] @ uuid_bytes i))) \<and>
    (i \<notin> live_ids st \<longrightarrow>
      connection_command E now ty view j (st, m) = Inr (st, emplace_back failed_response m)) \<and>
    (\<forall>k c. (i, c) \<in> set (st_connections st k) \<longrightarrow>
      (\<exists>m'. connection_command E now ty view j (st, m) = Inr (st, m') \<and>
        gather E s m' = opt_append (gather E s m) (Some ([1] @ connection_bytes E c))))"
  using whoami_message [OF assms(3)] connection_command_lookup [OF assms request_uuid_bytes] by blast

text \<open>A client can find itself. \<open>WHOAMI\<close> answers with the 16 bytes of the connection's id, and a
  \<open>CONNECTION\<close> request with these bytes answers with the 237 bytes of exactly that connection's
  record, in whichever of the four maps it stands; a request for an id that is not connected fails.\<close>

theorem whoami_connection_roundtrip:
  assumes "state_ok st" "request_codes_ok E" "unwritten m" "parse_connection E view = Some (uuid_bytes i)"
  shows "(\<exists>m'. whoami_command E now ty view' i (st, m) = Inr (st, m') \<and>
      gather E s m' = opt_append (gather E s m) (Some ([1] @ uuid_bytes i))) \<and>
    (i \<notin> live_ids st \<longrightarrow>
      connection_command E now ty view j (st, m) = Inr (st, emplace_back failed_response m)) \<and>
    (\<forall>k c. (i, c) \<in> set (st_connections st k) \<longrightarrow>
      (\<exists>m'. connection_command E now ty view j (st, m) = Inr (st, m') \<and>
        gather E s m' = opt_append (gather E s m) (Some ([1] @ connection_bytes E c))))"
  by (rule whoami_connection_messages [OF assms])

definition tcp_first_connections :: "connection list \<Rightarrow> connection list" where
  "tcp_first_connections f = filter is_tcp f @ filter (\<lambda>c. \<not> is_tcp c) f"

fun connection_fragment_bytes :: "(connection \<Rightarrow> bytes) \<Rightarrow> nat \<Rightarrow> connection list list \<Rightarrow> bytes" where
  "connection_fragment_bytes g i [] = []"
| "connection_fragment_bytes g i (f # fs) =
     le64 i @ le64 (length f) @ concat (map g (tcp_first_connections f)) @
       connection_fragment_bytes g (Suc i) fs"

lemma in_all_connections:
  "c \<in> set (all_connections st) \<Longrightarrow> \<exists>i k. (i, c) \<in> set (st_connections st k)"
  by (force simp: all_connections_def)

lemma fragment_ops_of_connections:
  assumes "\<And>x. x \<in> set (concat fs) \<Longrightarrow> \<exists>ps. op x = Emit ps \<and> concat ps = g x"
  shows "ops_bytes E s (connection_fragment_ops i (map (map (\<lambda>c. (c, op c))) fs)) =
      Some (connection_fragment_bytes g i fs)"
    and "list_all op_ok (connection_fragment_ops i (map (map (\<lambda>c. (c, op c))) fs))"
    and "ops_size (connection_fragment_ops i (map (map (\<lambda>c. (c, op c))) fs)) =
      16 * length fs + sum_list (map (length \<circ> g) (concat fs))"
proof -
  have t: "tcp_first (map (\<lambda>c. (c, op c)) f) = map op (tcp_first_connections f)" for f
    by (simp add: tcp_first_def tcp_first_connections_def filter_map comp_def)
  have st: "set (tcp_first_connections f) = set f" for f
    by (auto simp: tcp_first_connections_def)
  have sum: "sum_list (map h (tcp_first_connections f)) = sum_list (map h f)" for h :: "connection \<Rightarrow> nat" and f
    by (induction f) (auto simp: tcp_first_connections_def)
  have e: "op_bytes E s (op x) = Some (g x) \<and> op_ok (op x) \<and> op_size (op x) = length (g x)"
    if "x \<in> set (concat fs)" for x
    using assms [OF that] by auto
  have "ops_bytes E s (connection_fragment_ops i (map (map (\<lambda>c. (c, op c))) fs)) =
      Some (connection_fragment_bytes g i fs) \<and>
    list_all op_ok (connection_fragment_ops i (map (map (\<lambda>c. (c, op c))) fs)) \<and>
    ops_size (connection_fragment_ops i (map (map (\<lambda>c. (c, op c))) fs)) =
      16 * length fs + sum_list (map (length \<circ> g) (concat fs))"
    using e
  proof (induction fs arbitrary: i)
    case (Cons f fs)
    have "ops_bytes E s (map op (tcp_first_connections f)) = Some (concat (map g (tcp_first_connections f)))"
      by (rule ops_bytes_map) (use Cons.prems in \<open>simp add: st\<close>)
    moreover have "list_all op_ok (map op (tcp_first_connections f))"
      using Cons.prems by (simp add: list_all_iff st)
    moreover have "ops_size (map op (tcp_first_connections f)) = sum_list (map (length \<circ> g) f)"
    proof -
      have "map (op_size \<circ> op) (tcp_first_connections f) = map (length \<circ> g) (tcp_first_connections f)"
        using Cons.prems by (simp add: st)
      then show ?thesis unfolding ops_size_def by (simp only: map_map sum)
    qed
    ultimately show ?case
      using Cons.IH [of "Suc i"] Cons.prems by (simp add: t ops_bytes_append comp_def)
  qed simp
  then show "ops_bytes E s (connection_fragment_ops i (map (map (\<lambda>c. (c, op c))) fs)) =
      Some (connection_fragment_bytes g i fs)"
    "list_all op_ok (connection_fragment_ops i (map (map (\<lambda>c. (c, op c))) fs))"
    "ops_size (connection_fragment_ops i (map (map (\<lambda>c. (c, op c))) fs)) =
      16 * length fs + sum_list (map (length \<circ> g) (concat fs))" by simp_all
qed

lemma emit_ops_bytes:
  "\<forall>op \<in> set ops. \<exists>ps. op = Emit ps \<Longrightarrow> \<exists>bs. ops_bytes E s ops = Some bs \<and> length bs = ops_size ops"
  by (induction ops) auto

lemma connections_message:
  assumes "state_ok st" "request_codes_ok E" "unwritten m"
  shows "\<exists>m'. connections_command E now ty view i (st, m) = Inr (st, m') \<and>
      gather E s m' = opt_append (gather E s m)
        (Some ([1] @ le64 (length (fragments_of 2048 (\<lambda>_. 237) (all_connections st))) @
          connection_fragment_bytes (connection_bytes E) 1 (fragments_of 2048 (\<lambda>_. 237) (all_connections st))))"
proof -
  let ?cs = "all_connections st"
  let ?fs = "fragments_of 2048 (\<lambda>_. 237) ?cs"
  have ok: "connections_ok st" using assms(1) by (simp add: state_ok_def)
  have "\<exists>ps. write_connections_entry_to_buffer E c = Inr (Emit ps) \<and> concat ps = connection_bytes E c"
    if "c \<in> set ?cs" for c
    using in_all_connections [OF that] write_connection [OF assms(2)] connections_okD(4) [OF ok] by blast
  then obtain ps where ps: "\<And>c. c \<in> set ?cs \<Longrightarrow>
      write_connections_entry_to_buffer E c = Inr (Emit (ps c)) \<and> concat (ps c) = connection_bytes E c"
    by metis
  let ?op = "\<lambda>c. Emit (ps c)"
  have c: "collect_res (write_connections_entry_to_buffer E) ?cs = Inr (map ?op ?cs)"
    using ps by (intro collect_res_Inr) blast
  have z: "zip ?cs (map ?op ?cs) = map (\<lambda>c. (c, ?op c)) ?cs"
    by (simp add: zip_map2 zip_same_conv_map)
  have fs: "fragments_of 2048 (\<lambda>_. connection_measure) (zip ?cs (map ?op ?cs)) = map (map (\<lambda>c. (c, ?op c))) ?fs"
    unfolding z fragments_of_map by (simp add: comp_def connection_measure_def)
  have x: "\<exists>ps. ?op x = Emit ps \<and> concat ps = connection_bytes E x" if "x \<in> set (concat ?fs)" for x
    using ps that by (simp add: in_fragments del: set_concat)
  let ?ops = "connection_fragment_ops 1 (map (map (\<lambda>c. (c, ?op c))) ?fs)"
  have ob: "ops_bytes E s ?ops = Some (connection_fragment_bytes (connection_bytes E) 1 ?fs)"
    by (rule fragment_ops_of_connections(1)) (rule x)
  have oo: "list_all op_ok ?ops"
    by (rule fragment_ops_of_connections(2)) (rule x)
  have os: "ops_size ?ops = 16 * length ?fs + sum_list (map (length \<circ> connection_bytes E) (concat ?fs))"
    by (rule fragment_ops_of_connections(3)) (rule x)
  have "map (length \<circ> connection_bytes E) ?cs = map (\<lambda>_. 237) ?cs"
    by (simp add: length_connection_bytes)
  then have os': "ops_size ?ops = 16 * length ?fs + 237 * length ?cs"
    using os by (simp add: fragments_of_concat sum_list_replicate map_replicate_const)
  have "\<exists>m'. respond (8 + connection_measure * length ?cs + length ?fs * 8 * 2)
       ([Ref success_response, Emit [le64 (length ?fs)]] @ ?ops) m = Inr m' \<and>
     gather E s m' = opt_append (gather E s m)
        (Some ([1] @ le64 (length ?fs) @ connection_fragment_bytes (connection_bytes E) 1 ?fs))"
    by (rule respond_answer [OF assms(3)])
      (use os' oo ob in \<open>simp_all add: connection_measure_def\<close>)
  then show "\<exists>m'. connections_command E now ty view i (st, m) = Inr (st, m') \<and>
      gather E s m' = opt_append (gather E s m) (Some ([1] @ le64 (length ?fs) @
          connection_fragment_bytes (connection_bytes E) 1 ?fs))"
    by (auto simp: connections_command_def handle_fragmented_connections_response_def Let_def c fs)
qed

lemma all_connections_ids:
  assumes "connections_ok st"
  shows "distinct (map c_id (all_connections st)) \<and> c_id ` set (all_connections st) = live_ids st"
proof
  have ids_of: "map c_id (map snd (st_connections st k)) = map fst (st_connections st k)" for k
    using connections_okD(2) [OF assms] by force
  have disjoint: "ids (st_connections st k) \<inter> ids (st_connections st k') = {}" if "k \<noteq> k'" for k k'
    using connections_okD(5) [OF assms] that by blast
  have all: "map c_id (all_connections st) =
      concat (map (\<lambda>k. map fst (st_connections st k)) [Tcp, Unix, Agent_tcp, Agent_unix])"
    using ids_of by (simp add: all_connections_def all_maps_def del: map_map)
  show "distinct (map c_id (all_connections st))"
    using disjoint connections_okD(1) [OF assms] unfolding all ids_def by auto
  have "c_id ` set (all_connections st) = (\<Union>k \<in> {Tcp, Unix, Agent_tcp, Agent_unix}. ids (st_connections st k))"
    using arg_cong [OF all, of set] by (simp add: ids_def)
  moreover have "(UNIV :: connection_map set) = {Tcp, Unix, Agent_tcp, Agent_unix}"
    using connection_map.exhaust by blast
  ultimately show "c_id ` set (all_connections st) = live_ids st" by (simp add: live_ids_def)
qed

text \<open>The 432 bytes of \<open>INFO\<close>: 52 numbers and the version, padded with zeroes.\<close>

definition info_bytes :: "('v::len, 'x) protocol_scheme \<Rightarrow> u64 \<Rightarrow> 'v state \<Rightarrow> bytes" where
  "info_bytes E now st =
     concat (map word_to_le
       (info_requests now st (map (\<lambda>r. st_commands st ! unat (request_code E r)) info_request_types) @
        info_network st @ info_storage E (st_storage st) @ info_clients st)) @
     version @ replicate 10 0"

lemma info_message:
  assumes "state_ok st" "request_codes_ok E" "unwritten m"
  shows "\<exists>m'. info_command E now ty view i (st, m) = Inr (st, m') \<and>
      gather E s m' = opt_append (gather E s m) (Some ([1] @ info_bytes E now st))"
    and "length (info_bytes E now st) = 432"
proof -
  have len: "length (st_commands st) = 32" using assms(1) by (simp add: state_ok_def)
  let ?per = "map (\<lambda>r. st_commands st ! unat (request_code E r)) info_request_types"
  have "length ?per = 18" by (simp add: info_request_types_def)
  note ops = info_ops_size [OF this, of E now st]
  have emits: "ops_bytes E s (map (\<lambda>x. Emit [word_to_le x]) xs) = Some (concat (map word_to_le xs))"
    for xs :: "u64 list" by (simp add: ops_bytes_def comp_def)
  have bs: "ops_bytes E s (info_ops E now st ?per) = Some ([1] @ info_bytes E now st)"
    unfolding info_ops_def info_bytes_def
    by (simp add: ops_bytes_append emits version_def success_response_def seg_bytes_def del: map_append concat_append)
  have "\<exists>m'. respond 432 (info_ops E now st ?per) m = Inr m' \<and>
      gather E s m' = opt_append (gather E s m) (Some ([1] @ info_bytes E now st))"
    by (rule respond_answer [OF assms(3)]) (simp_all add: ops bs)
  then show "\<exists>m'. info_command E now ty view i (st, m) = Inr (st, m') \<and>
      gather E s m' = opt_append (gather E s m) (Some ([1] @ info_bytes E now st))"
    by (auto simp: info_command_def command_metrics [OF assms(2) len])
  have "length (concat (map word_to_le xs)) = 8 * length xs" for xs :: "u64 list"
    by (induction xs) simp_all
  moreover have "length (concat (map (\<lambda>m. [m_accumulator m, m_per_minute m]) ms)) = 2 * length ms" for ms :: "metric list"
    by (induction ms) simp_all
  ultimately show "length (info_bytes E now st) = 432"
    by (simp add: info_bytes_def info_defs Let_def version_def info_request_types_def)
qed

text \<open>\<open>CONNECTIONS\<close> reports every connection of the four maps once. The bytes on the wire are the
  status, the number of fragments and the fragments of records of 237 bytes each, TCP
  before Unix within a fragment, written exactly into the space reserved; the connections listed are
  those connected, each under one id.\<close>

theorem connections_command_answers:
  assumes "state_ok st" "request_codes_ok E" "unwritten m"
  shows "(\<exists>m'. connections_command E now ty view i (st, m) = Inr (st, m') \<and>
      gather E s m' = opt_append (gather E s m)
        (Some ([1] @ le64 (length (fragments_of 2048 (\<lambda>_. 237) (all_connections st))) @
          connection_fragment_bytes (connection_bytes E) 1 (fragments_of 2048 (\<lambda>_. 237) (all_connections st))))) \<and>
    distinct (map c_id (all_connections st)) \<and> c_id ` set (all_connections st) = live_ids st"
proof -
  have "connections_ok st" using assms(1) by (simp add: state_ok_def)
  from connections_message [OF assms] all_connections_ids [OF this] show ?thesis by simp
qed

lemma info_storage_totals:
  "\<exists>counters buffers allocated. info_storage E s =
     [of_nat (length s), counters, buffers, of_nat (value_size E) * counters, allocated] \<and>
     counters + buffers = of_nat (length s)"
proof -
  let ?ws = "map snd s" and ?counter = "\<lambda>w. e_type (w_entry w) = Counter"
  let ?c = "filter ?counter ?ws" and ?b = "filter (\<lambda>w. \<not> ?counter w) ?ws"
  have "length ?c + length ?b = length s"
    using sum_length_filter_compl [of ?counter ?ws] by simp
  then have "of_nat (length ?c) + of_nat (length ?b) = (of_nat (length s) :: u64)"
    by (simp flip: of_nat_add)
  moreover have "info_storage E s = [of_nat (length s), of_nat (length ?c), of_nat (length ?b),
      of_nat (value_size E) * of_nat (length ?c), of_nat (sum_list (map (\<lambda>w. length (e_buffer (w_entry w))) ?b))]"
    by (simp only: info_storage_def Let_def of_nat_mult length_map)
  ultimately show ?thesis by blast
qed

lemma info_clients_totals:
  assumes "connections_ok st"
  shows "info_clients st = [of_nat (length (st_subscriptions st)),
      of_nat (card (sub_channel ` set (st_subscriptions st))), st_started_at st, of_nat (card (live_ids st))]"
proof -
  note ids = all_connections_ids [OF assms]
  have "card (live_ids st) = length (all_connections st)"
    using ids distinct_card [of "map c_id (all_connections st)"] by simp
  then have "card (live_ids st) =
      sum_list (map (\<lambda>k. length (st_connections st k)) [Tcp, Unix, Agent_tcp, Agent_unix])"
    by (simp add: all_connections_def)
  then show ?thesis
    by (simp only: info_clients_def Let_def length_remdups_card_conv set_map)
qed

text \<open>\<open>INFO\<close> answers with the status and exactly the 432 bytes it reserves, and its totals are
  those of the containers: the keys are the counters and the buffers together, the channels are the
  distinct channels of the subscriptions, the connections are those of the four maps.\<close>

theorem info_command_answers:
  assumes "state_ok st" "request_codes_ok E" "unwritten m"
  shows "(\<exists>m'. info_command E now ty view i (st, m) = Inr (st, m') \<and>
      gather E s m' = opt_append (gather E s m) (Some ([1] @ info_bytes E now st))) \<and>
    length (info_bytes E now st) = 432 \<and>
    (\<exists>counters buffers allocated. info_storage E (st_storage st) =
       [of_nat (length (st_storage st)), counters, buffers, of_nat (value_size E) * counters, allocated] \<and>
       counters + buffers = of_nat (length (st_storage st))) \<and>
    info_clients st = [of_nat (length (st_subscriptions st)),
      of_nat (card (sub_channel ` set (st_subscriptions st))), st_started_at st, of_nat (card (live_ids st))]"
proof -
  have "connections_ok st" using assms(1) by (simp add: state_ok_def)
  then show ?thesis
    by (intro conjI info_message [OF assms] info_storage_totals info_clients_totals)
qed

section \<open>Witnesses\<close>

theorem whoami_connection_roundtrip_witness:
  "\<exists>m1 m2. whoami_command (sample_protocol :: 16 protocol) 9 16 [16] 1 (two_clients, new_message) =
      Inr (two_clients, m1) \<and>
    connection_command (sample_protocol :: 16 protocol) 9 17 (17 # uuid_bytes 1) 2 (two_clients, new_message) =
      Inr (two_clients, m2) \<and>
    gather (sample_protocol :: 16 protocol) [] m2 =
      Some ([1] @ connection_bytes (sample_protocol :: 16 protocol) (client 1))"
proof -
  have p: "parse_connection (sample_protocol :: 16 protocol) (17 # uuid_bytes 1) = Some (uuid_bytes 1)"
    by (simp add: sample_protocol_def field_def)
  have c: "(1, client 1) \<in> set (st_connections two_clients Tcp)"
    by (simp add: two_clients_def make_state_def)
  show ?thesis
    using whoami_connection_roundtrip [OF two_clients_ok sample_request_codes_ok unwritten_new p,
        where s = "[]" and now = 9 and j = 2] c by fastforce
qed

theorem connections_command_answers_witness:
  "\<exists>m'. connections_command (sample_protocol :: 16 protocol) 9 18 [18] 1 (two_clients, new_message) =
      Inr (two_clients, m') \<and> length (all_connections two_clients) = card (live_ids two_clients)"
  using connections_command_answers [OF two_clients_ok sample_request_codes_ok unwritten_new, of 9 18 "[18]" 1 "[]"]
    distinct_card [of "map c_id (all_connections two_clients)"] by auto

theorem info_command_answers_witness:
  "\<exists>m'. info_command (sample_protocol :: 16 protocol) 9 8 [8] 1 (two_clients, new_message) = Inr (two_clients, m') \<and>
    gather (sample_protocol :: 16 protocol) [] m' = Some ([1] @ info_bytes sample_protocol 9 two_clients)"
  using info_command_answers [OF two_clients_ok sample_request_codes_ok unwritten_new, of 9 8 "[8]" 1 "[]"] by auto

end
