(* ===== verification/Commands_Service.thy ===== *)
theory Commands_Service
  imports Commands_Info "HOL-Library.Sublist"
begin

text \<open>
  \<open>commands_service.cpp\<close>, \<open>base_command.cpp\<close> and \<open>event_command.cpp\<close>: the table from type
  bytes to commands, and the command that runs the request carried by an event. An event can carry an
  event, so the dispatch is recursive; its fuel is the length of the request, which is enough because
  the payload of an event is a proper part of it.
\<close>

definition base_command :: "'v::len command" where
  "base_command now ty view i = (\<lambda>(st, m). Inr (st, emplace_back failed_response m))"

definition event_command :: "('v::len, 'x) protocol_scheme \<Rightarrow> 'v command \<Rightarrow> 'v command" where
  "event_command E dispatch now ty view i = (\<lambda>(st, m).
     bind_res (of_option Bad_request (parse_event E view)) (\<lambda>r.
       case evt_buffer r of
         [] \<Rightarrow> Inl Out_of_bounds
       | ty' # _ \<Rightarrow>
           bind_res (mark_command ty' (st_commands st)) (\<lambda>ms.
             dispatch now ty' (evt_buffer r) i
               (st\<lparr>st_commands := ms\<rparr>, emplace_back success_response m))))"

definition command_functions ::
  "('v::len, 'x) protocol_scheme \<Rightarrow> 'v command \<Rightarrow> (request_types \<times> 'v command) list" where
  "command_functions E dispatch =
     [(Insert_req, insert_command E), (Set_req, set_command E), (Query_req, query_command E),
      (Get_req, query_command E), (Update_req, \<lambda>now ty. update_command E now), (Purge_req, purge_command E),
      (List_req, list_command E), (Stat_req, stat_command E), (Stats_req, stats_command E),
      (Connections_req, connections_command E), (Connection_req, connection_command E),
      (Whoami_req, whoami_command E), (Subscribe_req, subscribe_command E),
      (Unsubscribe_req, unsubscribe_command E), (Publish_req, publish_command E),
      (Channels_req, channels_command E), (Channel_req, channel_command E), (Info_req, info_command E),
      (Event_req, event_command E dispatch)]"

text \<open>The table has 256 slots, one per byte.\<close>

definition commands :: "('v::len, 'x) protocol_scheme \<Rightarrow> 'v command \<Rightarrow> 'v command list" where
  "commands E dispatch =
     fold (\<lambda>(r, f). set_slot E r f) (command_functions E dispatch) (replicate 256 base_command)"

fun dispatch :: "nat \<Rightarrow> ('v::len, 'x) protocol_scheme \<Rightarrow> 'v command" where
  "dispatch 0 E now ty view i sm = Inl Out_of_fuel"
| "dispatch (Suc k) E now ty view i sm = (commands E (dispatch k E) ! unat ty) now ty view i sm"

text \<open>\<open>commands_[type](state, type, view, buffers, write_buffer, id)\<close>.\<close>

definition call :: "('v::len, 'x) protocol_scheme \<Rightarrow> 'v command" where
  "call E now ty view i sm = dispatch (Suc (length view)) E now ty view i sm"

section \<open>Looking a command up\<close>

lemma commands_table: "commands E d = table_of E (command_functions E d) (replicate 256 base_command)"
  by (simp add: commands_def table_of_def)

lemma distinct_command_functions: "distinct (map fst (command_functions E d))"
  by (simp add: command_functions_def)

lemma command_of_request:
  assumes "request_codes_ok E" "(r, f) \<in> set (command_functions E d)"
  shows "commands E d ! unat (request_code E r) = f"
  unfolding commands_table
  by (rule table_of_slot [OF assms(1) _ distinct_command_functions assms(2)]) simp

lemma command_of_other:
  assumes "request_of E ty = None"
  shows "commands E d ! unat ty = base_command"
proof -
  have "unat (request_code E r) \<noteq> unat ty" for r
    using request_of_None [OF assms, of r] by (simp add: word_unat_eq_iff)
  then have "commands E d ! unat ty = replicate 256 base_command ! unat ty"
    unfolding commands_table by (intro table_of_other)
  moreover have "unat ty < 2 ^ LENGTH(8)" by (rule unsigned_less)
  ultimately show ?thesis by simp
qed

lemma fst_command_functions: "fst ` set (command_functions E d) = UNIV"
proof -
  have "r \<in> fst ` set (command_functions E d)" for r
    by (cases r) (simp_all add: command_functions_def)
  then show ?thesis by blast
qed

lemma commands_cases:
  assumes "request_codes_ok E"
  obtains (none) "request_of E ty = None" "commands E d ! unat ty = base_command"
  | (some) r f where "ty = request_code E r" "(r, f) \<in> set (command_functions E d)"
      "commands E d ! unat ty = f"
proof (cases "request_of E ty")
  case None
  then show thesis using none command_of_other by blast
next
  case (Some r)
  obtain f where f: "(r, f) \<in> set (command_functions E d)"
    using fst_command_functions [of E d] by force
  have ty: "ty = request_code E r" by (rule request_of_Some [OF Some])
  show thesis by (rule some [OF ty f]) (simp add: ty command_of_request [OF assms f])
qed

section \<open>Every command keeps the invariant\<close>

text \<open>What no command touches of a connection: everything but its metrics and the messages posted to it,
  which commands only add to.\<close>

definition rx :: "connection \<Rightarrow> uuid \<times> connection_kind \<times> connection_type \<times> bytes \<times> nat \<times> nat \<times> message list \<times> message option \<times> bool \<times> bool"
where
  "rx c = (c_id c, c_kind c, c_type c, c_buffer c, c_buffer_start c, c_buffer_end c, c_pending_writes c, c_writing c,
     c_reading c, c_open c)"

definition more_posted :: "uuid \<times> connection \<Rightarrow> uuid \<times> connection \<Rightarrow> bool" where
  "more_posted = (\<lambda>(j, c) (j', c'). j' = j \<and> rx c' = rx c \<and> prefix (c_posted c) (c_posted c'))"

definition same_rx :: "'v::len state \<Rightarrow> 'v state \<Rightarrow> bool" where
  "same_rx st st' \<longleftrightarrow> (\<forall>k. list_all2 more_posted (st_connections st k) (st_connections st' k))"

lemma more_posted_refl [simp]: "more_posted x x"
  by (cases x) (simp add: more_posted_def)

lemma same_rxI: "st_connections st' = st_connections st \<Longrightarrow> same_rx st st'"
  by (simp add: same_rx_def list_all2_refl)

lemma same_rx_refl [simp]: "same_rx st st"
  by (rule same_rxI) simp

lemma same_rx_trans: "same_rx a b \<Longrightarrow> same_rx b c \<Longrightarrow> same_rx a c"
proof -
  have "more_posted x y \<Longrightarrow> more_posted y z \<Longrightarrow> more_posted x z" for x y z
    by (auto simp: more_posted_def split: prod.splits)
  then show "same_rx a b \<Longrightarrow> same_rx b c \<Longrightarrow> same_rx a c"
    unfolding same_rx_def by (blast intro: list_all2_trans [of more_posted more_posted more_posted])
qed

lemma same_rx_map:
  assumes "same_rx st st'"
  shows "map (\<lambda>(j, c). (j, rx c)) (st_connections st' k) = map (\<lambda>(j, c). (j, rx c)) (st_connections st k)"
proof -
  have "list_all2 more_posted xs ys \<Longrightarrow> map (\<lambda>(j, c). (j, rx c)) ys = map (\<lambda>(j, c). (j, rx c)) xs" for xs ys
    by (induction xs ys rule: list_all2_induct) (auto simp: more_posted_def split: prod.splits)
  then show ?thesis using assms by (simp add: same_rx_def)
qed

lemma same_rx_live:
  assumes "same_rx st st'"
  shows "live_ids st' = live_ids st"
proof -
  have "ids m = fst ` set (map (\<lambda>(j, c). (j, rx c)) m)" for m by (force simp: ids_def)
  then have "ids (st_connections st' k) = ids (st_connections st k)" for k
    using same_rx_map [OF assms] by metis
  then show ?thesis by (simp add: live_ids_def)
qed

text \<open>A command is safe when it keeps \<open>state_ok\<close> for a connected client.\<close>

definition keeps_state :: "'v::len command \<Rightarrow> bool" where
  "keeps_state f \<longleftrightarrow> (\<forall>now ty view i st m st' m'.
     f now ty view i (st, m) = Inr (st', m') \<longrightarrow> state_ok st \<longrightarrow> i \<in> live_ids st \<longrightarrow>
     state_ok st' \<and> same_rx st st')"

definition same_rest :: "'v::len state \<Rightarrow> 'v state \<Rightarrow> bool" where
  "same_rest st st' \<longleftrightarrow> st_connections st' = st_connections st \<and>
     st_subscriptions st' = st_subscriptions st \<and> st_commands st' = st_commands st"

lemma state_ok_same_rest:
  assumes "state_ok st" "entries_ok st'" "same_rest st st'"
  shows "state_ok st'"
proof -
  have "live_ids st' = live_ids st" using assms(3) by (simp add: live_ids_def same_rest_def)
  then show ?thesis
    using assms by (simp add: state_ok_def connections_ok_def subscriptions_ok_def same_rest_def)
qed

lemma same_rest_refl [simp]: "same_rest st st"
  by (simp add: same_rest_def)

lemma same_rest_on_storage [simp]: "same_rest st (on_storage f st') = same_rest st st'"
  by (simp add: same_rest_def)

lemma find_or_fail_rest: "same_rest st (snd (find_or_fail st k))"
  by (subst find_or_fail_frame) simp

lemma find_or_fail_entries: "entries_ok st \<Longrightarrow> entries_ok (snd (find_or_fail st k))"
  using find_or_fail_cases [of st k] by force

lemma emplace_entry_frame:
  assumes "emplace_entry E key v t x ty st = Inr (ok, st')" "entries_ok st"
  shows "same_rest st st'" "entries_ok st'"
proof -
  show "entries_ok st'" by (rule emplace_entry_slots [OF assms(2,1)])
  show "same_rest st st'"
  proof -
    obtain w where w: "make_wrapper E key ty v t x = Inr w"
      using assms(1) by (auto simp: emplace_entry_def res_simps)
    obtain s ins where s: "storage_emplace E (st_next_node st) w (st_storage st) = (s, ins)"
      by (cases "storage_emplace E (st_next_node st) w (st_storage st)")
    obtain s' sch where s': "scan_first_live x s = (s', sch)" by (cases "scan_first_live x s")
    show ?thesis
      using assms(1) by (cases ins) (auto simp: emplace_entry_def same_rest_def w s s')
  qed
qed

lemma create_use_frame:
  assumes "create_use E now key v t ttl ty as_insert st = Inr (ok, st')" "entries_ok st"
  shows "same_rest st st' \<and> entries_ok st'"
proof -
  obtain x where x: "get_expiration_point E now t ttl = Inr x"
    using assms(1) by (auto simp: create_use_def res_simps)
  consider (again) n where "st' = on_storage (storage_modify n (set_again v t x)) st"
    | (fresh) "emplace_entry E key v t x ty st = Inr (ok, st')"
    using assms(1) x by (auto simp: create_use_def split: option.splits if_splits prod.splits)
  then show ?thesis
  proof cases
    case again
    then show ?thesis
      using entries_ok_modify [OF assms(2), where f = "set_again v t x"] by simp
  next
    case fresh
    then show ?thesis using emplace_entry_frame [OF _ assms(2)] by blast
  qed
qed

lemma keeps_stateI:
  assumes "\<And>now ty view i st m st' m'. f now ty view i (st, m) = Inr (st', m') \<Longrightarrow> entries_ok st \<Longrightarrow>
    same_rest st st' \<and> entries_ok st'"
  shows "keeps_state f"
  unfolding keeps_state_def
proof (intro allI impI)
  fix now ty view i st m st' m'
  assume f: "f now ty view i (st, m) = Inr (st', m')" and ok: "state_ok st"
  have "entries_ok st" using ok by (simp add: state_ok_def)
  from assms [OF f this] have r: "same_rest st st'" "entries_ok st'" by simp_all
  then have "same_rx st st'" by (intro same_rxI) (simp add: same_rest_def)
  then show "state_ok st' \<and> same_rx st st'" using state_ok_same_rest [OF ok r(2,1)] by simp
qed

lemma keeps_state_id:
  assumes "\<And>now ty view i st m st' m'. f now ty view i (st, m) = Inr (st', m') \<Longrightarrow> st' = st"
  shows "keeps_state f"
  using assms same_rx_refl unfolding keeps_state_def by metis

lemma insert_set_keep: "keeps_state (insert_command E)" "keeps_state (set_command E)"
  by (rule keeps_stateI,
      auto simp: insert_command_def set_command_def res_simps dest: create_use_frame)+

lemma keeps_state_find:
  assumes "\<And>now ty view i st m st' m'. f now ty view i (st, m) = Inr (st', m') \<Longrightarrow>
    \<exists>k. st' = snd (find_or_fail st k)"
  shows "keeps_state f"
proof (rule keeps_stateI)
  fix now ty view i st m st' m'
  assume "f now ty view i (st, m) = Inr (st', m')" and ok: "entries_ok st"
  from assms [OF this(1)] obtain k where "st' = snd (find_or_fail st k)" by blast
  then show "same_rest st st' \<and> entries_ok st'"
    using find_or_fail_rest [of st k] find_or_fail_entries [OF ok, of k] by simp
qed

lemma query_command_state:
  assumes "query_command E now ty view i (st, m) = Inr (st', m')"
  shows "\<exists>k. st' = snd (find_or_fail st k)"
proof -
  obtain k where k: "parse_query E view = Some k" using assms by (auto simp: query_command_def res_simps)
  obtain x s1 where "find_or_fail st k = (x, s1)" by (cases "find_or_fail st k")
  then show ?thesis
    using assms k by (intro exI [of _ k]) (cases x; auto simp: query_command_def res_simps Let_def split: if_splits)
qed

lemma stat_command_state:
  assumes "stat_command E now ty view i (st, m) = Inr (st', m')"
  shows "\<exists>k. st' = snd (find_or_fail st k)"
proof -
  obtain k where k: "parse_stat E view = Some k" using assms by (auto simp: stat_command_def res_simps)
  obtain x s1 where "find_or_fail st k = (x, s1)" by (cases "find_or_fail st k")
  then show ?thesis
    using assms k by (intro exI [of _ k]) (cases x; auto simp: stat_command_def res_simps)
qed

lemma query_stat_keep: "keeps_state (query_command E)" "keeps_state (stat_command E)"
  by (rule keeps_state_find, erule query_command_state stat_command_state)+

lemma update_keep: "keeps_state (\<lambda>now ty. update_command E now)"
proof (rule keeps_stateI)
  fix now ty view i st m st' m'
  assume f: "update_command E now view i (st, m) = Inr (st', m')" and ok: "entries_ok st"
  then obtain r where r: "parse_update E view = Some r"
    by (auto simp: update_command_def res_simps)
  have "entries_ok st'" using update_command_slots [OF ok r, of now i m] f by auto
  moreover have "same_rest st st'"
  proof -
    obtain x s1 where s1: "find_or_fail st (upd_key r) = (x, s1)" by (cases "find_or_fail st (upd_key r)")
    then have "same_rest st s1" using find_or_fail_rest [of st "upd_key r"] by simp
    then show ?thesis
      using f r s1 by (cases x) (auto simp: update_command_def Let_def same_rest_def split: prod.splits)
  qed
  ultimately show "same_rest st st' \<and> entries_ok st'" by simp
qed

lemma purge_keep: "keeps_state (purge_command E)"
proof (rule keeps_stateI)
  fix now ty view i st m st' m'
  assume f: "purge_command E now ty view i (st, m) = Inr (st', m')" and ok: "entries_ok st"
  then obtain k where k: "parse_purge E view = Some k"
    by (auto simp: purge_command_def res_simps)
  have "entries_ok st'" using purge_command_slots [OF ok k, of now ty i m] f by auto
  moreover have "same_rest st st'"
    using f k by (auto simp: purge_command_def Let_def split: option.splits if_splits)
  ultimately show "same_rest st st' \<and> entries_ok st'" by simp
qed

lemma listing_keep: "keeps_state (list_command E)" "keeps_state (stats_command E)"
proof -
  have "same_rest st st' \<and> entries_ok st'"
    if "handle_fragmented_entries_response n k ser (st, m) = Inr (st', m')" "entries_ok st"
    for n k ser and st st' :: "'a state" and m m'
    using that count_listed_storage(3) [OF that(2)]
    by (auto simp: handle_fragmented_entries_response_def Let_def res_simps same_rest_def)
  then show "keeps_state (list_command E)" "keeps_state (stats_command E)"
    unfolding list_command_def stats_command_def by (intro keeps_stateI; blast)+
qed

lemma read_only_state:
  "channel_command E now ty view i (st, m) = Inr (st', m') \<Longrightarrow> st' = st"
  "channels_command E now ty view i (st, m) = Inr (st', m') \<Longrightarrow> st' = st"
  "whoami_command E now ty view i (st, m) = Inr (st', m') \<Longrightarrow> st' = st"
  "connection_command E now ty view i (st, m) = Inr (st', m') \<Longrightarrow> st' = st"
  "connections_command E now ty view i (st, m) = Inr (st', m') \<Longrightarrow> st' = st"
  "info_command E now ty view i (st, m) = Inr (st', m') \<Longrightarrow> st' = st"
  "base_command now ty view i (st, m) = Inr (st', m') \<Longrightarrow> st' = st"
  by (auto simp: channel_command_def channels_command_def handle_fragmented_channels_response_def
        whoami_command_def connection_command_def connections_command_def base_command_def
        handle_fragmented_connections_response_def info_command_def res_simps Let_def
        split: if_splits option.splits)

lemma read_only_keep:
  "keeps_state (channel_command E)" "keeps_state (channels_command E)" "keeps_state (whoami_command E)"
  "keeps_state (connection_command E)" "keeps_state (connections_command E)" "keeps_state (info_command E)"
  "keeps_state base_command"
  by (rule keeps_state_id, erule read_only_state)+

lemma live_on_subscriptions [simp]: "live_ids (on_subscriptions f st) = live_ids st"
  by (simp add: live_ids_def)

lemma subscribe_keep: "keeps_state (subscribe_command E)"
  unfolding keeps_state_def
proof (intro allI impI)
  fix now ty view i st m st' m'
  assume "subscribe_command E now ty view i (st, m) = Inr (st', m')" and ok: "state_ok st" and i: "i \<in> live_ids st"
  then obtain c where "st' = on_subscriptions (\<lambda>_. st_subscriptions st @ [make_subscription now i c]) st"
    by (auto simp: subscribe_command_def insert_subscription_def res_simps)
  then show "state_ok st' \<and> same_rx st st'"
    using state_ok_on_subscriptions [OF ok, of "\<lambda>_. st_subscriptions st @ [make_subscription now i c]"] ok i
    by (auto intro: same_rxI simp: state_ok_def subscriptions_ok_def)
qed

lemma unsubscribe_keep: "keeps_state (unsubscribe_command E)"
  unfolding keeps_state_def
proof (intro allI impI)
  fix now ty view i st m st' m'
  assume f: "unsubscribe_command E now ty view i (st, m) = Inr (st', m')" and ok: "state_ok st"
  then obtain c where "st' = st \<or> st' = on_subscriptions (erase_subscriptions i c) st"
    by (auto simp: unsubscribe_command_def res_simps split: if_splits)
  moreover have "erase_subscriptions i c = filter (\<lambda>s. \<not> (sub_connection_id s = i \<and> sub_channel s = c))"
    by (simp add: erase_subscriptions_def fun_eq_iff)
  ultimately show "state_ok st' \<and> same_rx st st'"
    using ok subscriptions_ok_erase [OF ok] by (auto intro: same_rxI)
qed

lemma rx_deliver: "rx ((deliver scope n m ^^ k) c) = rx c"
  by (induction k) (simp_all add: rx_def deliver_def send_def on_network_def)

lemma posted_deliver: "prefix (c_posted c) (c_posted ((deliver scope n m ^^ k) c))"
  by (induction k) (auto simp: deliver_def send_def on_network_def)

lemma home_rx: "rx c = rx d \<Longrightarrow> c_id c = c_id d \<and> home c = home d"
  by (simp add: rx_def home_def)

lemma publish_keep: "keeps_state (publish_command E)"
  unfolding keeps_state_def
proof (intro allI impI)
  fix now ty view i st m st' m'
  assume f: "publish_command E now ty view i (st, m) = Inr (st', m')" and ok: "state_ok st"
  then obtain r where r: "parse_publish E view = Some r" by (auto simp: publish_command_def res_simps)
  obtain msg where p: "\<And>k. st_connections st' k = map (\<lambda>(j, c). (j, (deliver i (of_nat (length (pub_value r))) msg ^^
        subscription_count j (pub_channel r) (st_subscriptions st)) c)) (st_connections st k)"
    "map sub_connection_id (st_subscriptions st') = map sub_connection_id (st_subscriptions st)"
    "st_storage st' = st_storage st" "st_next_node st' = st_next_node st" "st_commands st' = st_commands st"
    using publish_command_delivers [OF ok r, of now ty i m] f by auto
  have rx: "same_rx st st'" 
    by (auto simp: same_rx_def p(1) list_all2_map2 more_posted_def rx_deliver posted_deliver intro!: list_all2_refl)
  have live: "live_ids st' = live_ids st" by (rule same_rx_live [OF rx])
  have c: "connections_ok st" using ok by (simp add: state_ok_def)
  have i: "ids (st_connections st' k) = ids (st_connections st k)"
    "map fst (st_connections st' k) = map fst (st_connections st k)" for k
    by (simp_all add: p(1) ids_def image_image split_def)
  have cmds: "length (cm_commands (c_metrics ((deliver a b d ^^ n) x))) = length (cm_commands (c_metrics x))"
    for a b d n x by (induction n) simp_all
  have "c_id d = j \<and> home d = k \<and> length (cm_commands (c_metrics d)) = 32"
    if "(j, d) \<in> set (st_connections st' k)" for j d k
    using that connections_okD(2-4) [OF c] home_rx [OF rx_deliver] by (auto simp: p(1) cmds)
  then have "connections_ok st'" using c unfolding connections_ok_def i by blast
  moreover have "subscriptions_ok st'"
    using ok live p(2) unfolding state_ok_def subscriptions_ok_def by (metis list.set_map)
  ultimately show "state_ok st' \<and> same_rx st st'"
    using ok rx p(3-5) by (simp add: state_ok_def entries_ok_def)
qed

lemma state_ok_commands:
  assumes "state_ok st" "length ms = 32"
  shows "state_ok (st\<lparr>st_commands := ms\<rparr>)" "live_ids (st\<lparr>st_commands := ms\<rparr>) = live_ids st"
    "same_rx st (st\<lparr>st_commands := ms\<rparr>)"
proof -
  show live: "live_ids (st\<lparr>st_commands := ms\<rparr>) = live_ids st" by (simp add: live_ids_def)
  show "state_ok (st\<lparr>st_commands := ms\<rparr>)"
    using assms live
    by (simp add: state_ok_def entries_ok_def connections_ok_def subscriptions_ok_def)
  show "same_rx st (st\<lparr>st_commands := ms\<rparr>)" by (rule same_rxI) simp
qed

lemma event_keep:
  assumes "keeps_state d"
  shows "keeps_state (event_command E d)"
  unfolding keeps_state_def
proof (intro allI impI)
  fix now ty view i st m st' m'
  assume f: "event_command E d now ty view i (st, m) = Inr (st', m')" and ok: "state_ok st"
    and i: "i \<in> live_ids st"
  then obtain ty' b ms where d: "d now ty' b i (st\<lparr>st_commands := ms\<rparr>, emplace_back success_response m) = Inr (st', m')"
    and ms: "mark_command ty' (st_commands st) = Inr ms"
    by (fastforce simp: event_command_def res_simps neq_Nil_conv split: list.split_asm)
  have "length ms = 32" using length_mark_command [OF ms] ok by (simp add: state_ok_def)
  note st1 = state_ok_commands [OF ok this]
  show "state_ok st' \<and> same_rx st st'"
    using assms d st1(1,2) i same_rx_trans [OF st1(3)] unfolding keeps_state_def by metis
qed

text \<open>What holds of every command of the table, given that it holds of the commands an event nests, holds
  of the dispatch.\<close>

lemma dispatch_induct [consumes 1, case_names fuel other step select]:
  assumes "request_codes_ok E" and "P 0 (dispatch 0 E)" and "\<And>n. P n base_command"
    and step: "\<And>n d r f. P n d \<Longrightarrow> (r, f) \<in> set (command_functions E d) \<Longrightarrow> P (Suc n) f"
    and select: "\<And>n g. (\<And>ty. P n (g ty)) \<Longrightarrow> P n (\<lambda>now ty. g ty now ty)"
  shows "P n (dispatch n E)"
proof (induction n)
  case (Suc n)
  have "P (Suc n) (commands E (dispatch n E) ! unat ty)" for ty :: byte
  proof (cases ty rule: commands_cases [OF assms(1), where d = "dispatch n E"])
    case 1
    then show ?thesis using assms(3) by simp
  next
    case (2 r f)
    then show ?thesis using step [OF Suc] by blast
  qed
  then have "P (Suc n) (\<lambda>now ty. (commands E (dispatch n E) ! unat ty) now ty)" by (rule select)
  then show ?case by (simp add: dispatch.simps(2) [abs_def])
qed (rule assms(2))

lemma dispatch_keep:
  assumes "request_codes_ok E"
  shows "keeps_state (dispatch n E)"
  using assms
proof (induction rule: dispatch_induct)
  case (step n d r f)
  have "\<forall>(r, f) \<in> set (command_functions E d). keeps_state f"
    by (simp add: command_functions_def insert_set_keep query_stat_keep update_keep purge_keep
        listing_keep read_only_keep subscribe_keep unsubscribe_keep publish_keep event_keep [OF step(1)])
  then show ?case using step(2) by fast
next
  case (select n g)
  then show ?case unfolding keeps_state_def by blast
next
  case fuel
  show ?case unfolding keeps_state_def by simp
qed (rule read_only_keep(7))

lemma call_keeps:
  assumes "request_codes_ok E" "state_ok st" "i \<in> live_ids st"
    and "call E now ty view i (st, m) = Inr (st', m')"
  shows "state_ok st'" "same_rx st st'" "live_ids st' = live_ids st"
proof -
  show "state_ok st'" and rx: "same_rx st st'"
    using dispatch_keep [OF assms(1), of "Suc (length view)"] assms(2-4)
    unfolding keeps_state_def call_def by blast+
  show "live_ids st' = live_ids st" by (rule same_rx_live [OF rx])
qed

text \<open>C5: No request breaks the server's state. Whatever bytes a connected client sends, and however
  events nest in them, when the command that the type byte selects returns, the container is well
  formed, every connection still stands under its own id in its own map, every subscription belongs to
  a live connection, no connection's receive buffer or write queue was touched, and no message posted to
  a connection is taken back.\<close>

theorem call_keeps_state:
  assumes "request_codes_ok E" "state_ok st" "i \<in> live_ids st"
    and "call E now ty view i (st, m) = Inr (st', m')"
  shows "state_ok st' \<and> same_rx st st' \<and> live_ids st' = live_ids st"
  using call_keeps [OF assms] by simp

lemma call_whoami:
  "\<exists>m'. call (sample_protocol :: 16 protocol) 9 16 [16] i (st, new_message) = Inr (st, m')"
proof -
  let ?E = "sample_protocol :: 16 protocol"
  have "commands ?E (dispatch 1 ?E) ! unat (request_code ?E Whoami_req) = whoami_command ?E"
    by (rule command_of_request [OF sample_request_codes_ok]) (simp add: command_functions_def)
  then have "call ?E 9 16 [16] i (st, new_message) = whoami_command ?E 9 16 [16] i (st, new_message)"
    by (simp add: call_def)
  then show ?thesis using whoami_message [OF unwritten_new] by metis
qed

theorem call_keeps_state_witness:
  "\<exists>st' m'. call (sample_protocol :: 16 protocol) 9 16 [16] 1 (two_clients, new_message) = Inr (st', m') \<and>
     state_ok st'"
proof -
  obtain m' where c: "call (sample_protocol :: 16 protocol) 9 16 [16] 1 (two_clients, new_message) = Inr (two_clients, m')"
    using call_whoami by blast
  have "1 \<in> live_ids two_clients"
    by (force simp: two_clients_def live_ids_join)
  from call_keeps_state [OF sample_request_codes_ok two_clients_ok this c] show ?thesis using c by blast
qed

end
