(* ===== verification/Commands_Answers.thy ===== *)
theory Commands_Answers
  imports Commands_Service
begin

text \<open>
  What every command has in common: on any request it appends an answer to the message, or fails in one of
  two ways. The proofs go through the commands one by one; the nested event is by induction on the fuel.
\<close>

section \<open>Every request is answered\<close>

text \<open>
  Documented facts about the parsers of the protocol library: the value fields have the size of
  \<open>value_type\<close>, an id has 16 bytes, the payload of an event is a proper part of the event.
\<close>

definition parsers_ok :: "('v::len, 'x) protocol_scheme \<Rightarrow> bool" where
  "parsers_ok E \<longleftrightarrow>
     (\<forall>v r. parse_insert E v = Some r \<longrightarrow>
        value_size E \<le> length (ins_quota r) \<and> value_size E \<le> length (ins_ttl r)) \<and>
     (\<forall>v r. parse_set E v = Some r \<longrightarrow> value_size E \<le> length (set_ttl r)) \<and>
     (\<forall>v b. parse_connection E v = Some b \<longrightarrow> length b \<le> 16) \<and>
     (\<forall>v r. parse_event E v = Some r \<longrightarrow> length (evt_buffer r) < length v)"

text \<open>An answer: the bytes added to the message are a status, 0 or 1, and its details.\<close>

definition answer :: "('v::len, 'x) protocol_scheme \<Rightarrow> message \<Rightarrow> 'v state \<times> message \<Rightarrow> bool" where
  "answer E m = (\<lambda>(st', m'). \<exists>b bs. b \<in> {0, 1} \<and>
     gather E (st_storage st') m' = opt_append (gather E (st_storage st') m) (Some (b # bs)))"

definition answers :: "error set \<Rightarrow> ('v::len, 'x) protocol_scheme \<Rightarrow> 'v command \<Rightarrow> bool" where
  "answers errs E f \<longleftrightarrow> (\<forall>now ty view i st m. state_ok st \<longrightarrow> unwritten m \<longrightarrow>
     (case f now ty view i (st, m) of Inl e \<Rightarrow> e \<in> errs | Inr r \<Rightarrow> answer E m r))"

lemma answersI:
  fixes f :: "'v::len command"
  assumes "\<And>now ty view i st m. state_ok st \<Longrightarrow> unwritten m \<Longrightarrow>
    f now ty view i (st, m) = Inl Bad_request \<or> (\<exists>r. f now ty view i (st, m) = Inr r \<and> answer E m r)"
  shows "answers {Bad_request} E f"
  unfolding answers_def
proof (intro allI impI)
  fix now ty view i and st :: "'v state" and m
  assume "state_ok st" "unwritten m"
  then show "case f now ty view i (st, m) of Inl e \<Rightarrow> e \<in> {Bad_request} | Inr r \<Rightarrow> answer E m r"
    using assms [of st m now ty view i] by auto
qed

lemma answer_status: "answer E m (st', emplace_back (status ok) m)"
  "answer E m (st', emplace_back failed_response m)"
proof -
  have "gather E (st_storage st') (emplace_back (status ok) m) =
      opt_append (gather E (st_storage st') m) (Some ((if ok then 1 else 0) # []))"
    by (simp add: gather_status)
  then show "answer E m (st', emplace_back (status ok) m)"
    unfolding answer_def prod.case by (intro exI conjI) (auto split: if_splits)
  have "gather E (st_storage st') (emplace_back failed_response m) =
      opt_append (gather E (st_storage st') m) (Some (0 # []))"
    by (simp add: gather_emplace_back)
  then show "answer E m (st', emplace_back failed_response m)"
    unfolding answer_def prod.case by (intro exI conjI) auto
qed

lemma answer_bytes:
  "gather E (st_storage st') m' = opt_append (gather E (st_storage st') m) (Some (1 # bs)) \<Longrightarrow>
     answer E m (st', m')"
  unfolding answer_def prod.case by (intro exI conjI) auto

lemma create_use_total:
  fixes E :: "('v::len, 'x) protocol_scheme"
  assumes "value_size E \<le> length ttl" "type = Raw \<or> value_size E \<le> length v"
  shows "\<exists>r. create_use E now key v t ttl type as_insert st = Inr r"
proof -
  obtain x where x: "get_expiration_point E now t ttl = Inr x"
    using assms(1) by (auto simp: get_expiration_point_def read_value_def Let_def)
  obtain w where w: "make_wrapper E key type v t x = Inr w"
    using assms(2) by (cases "type = Raw") (auto simp: make_wrapper_def make_entry_def read_value_def)
  obtain s ins where s: "storage_emplace E (st_next_node st) w (st_storage st) = (s, ins)"
    by (cases "storage_emplace E (st_next_node st) w (st_storage st)")
  obtain s' sch where s': "scan_first_live x s = (s', sch)" by (cases "scan_first_live x s")
  have "\<exists>r. emplace_entry E key v t x type st = Inr r"
    by (cases ins) (auto simp: emplace_entry_def w s s')
  then show ?thesis by (auto simp: create_use_def x Let_def split: option.split)
qed

lemma insert_set_answer:
  assumes "parsers_ok E"
  shows "answers {Bad_request} E (insert_command E)" "answers {Bad_request} E (set_command E)"
proof -
  show "answers {Bad_request} E (insert_command E)"
  proof (rule answersI)
    fix now ty view i st m
    show "insert_command E now ty view i (st, m) = Inl Bad_request \<or>
      (\<exists>r. insert_command E now ty view i (st, m) = Inr r \<and> answer E m r)"
    proof (cases "parse_insert E view")
      case (Some r)
      then have "value_size E \<le> length (ins_ttl r)" "value_size E \<le> length (ins_quota r)"
        using assms by (auto simp: parsers_ok_def)
      then obtain ok st' where "create_use E now (ins_key r) (ins_quota r) (ins_ttl_type r) (ins_ttl r)
          Counter True st = Inr (ok, st')"
        using create_use_total by (metis surj_pair)
      then show ?thesis using Some by (simp add: insert_command_def answer_status)
    qed (simp add: insert_command_def)
  qed
  show "answers {Bad_request} E (set_command E)"
  proof (rule answersI)
    fix now ty view i st m
    show "set_command E now ty view i (st, m) = Inl Bad_request \<or>
      (\<exists>r. set_command E now ty view i (st, m) = Inr r \<and> answer E m r)"
    proof (cases "parse_set E view")
      case (Some r)
      then have "value_size E \<le> length (set_ttl r)" using assms by (auto simp: parsers_ok_def)
      then obtain ok st' where "create_use E now (set_key r) (set_value r) (set_ttl_type r) (set_ttl r)
          Raw False st = Inr (ok, st')"
        using create_use_total by (metis surj_pair)
      then show ?thesis using Some by (simp add: set_command_def answer_status)
    qed (simp add: set_command_def)
  qed
qed

lemma query_answer_head: "\<exists>b bs. query_answer E now ty x = b # bs \<and> b \<in> {0, 1}"
  by (auto simp: query_answer_def Let_def split: option.split)

lemma entry_answers:
  "answers {Bad_request} E (query_command E)" "answers {Bad_request} E (\<lambda>now ty. update_command E now)"
  "answers {Bad_request} E (purge_command E)" "answers {Bad_request} E (stat_command E)"
proof -
  show "answers {Bad_request} E (query_command E)"
  proof (rule answersI)
    fix now ty view i and st :: "'a state" and m
    assume ok: "state_ok st" "unwritten m"
    show "query_command E now ty view i (st, m) = Inl Bad_request \<or>
      (\<exists>r. query_command E now ty view i (st, m) = Inr r \<and> answer E m r)"
    proof (cases "parse_query E view")
      case (Some k)
      obtain b bs where b: "query_answer E now ty (live_entry (slots (st_storage st) k)) = b # bs" "b \<in> {0, 1}"
        using query_answer_head by metis
      have "entries_ok st" using ok(1) by (simp add: state_ok_def)
      from query_command_message [OF this Some ok(2), of now ty i] show ?thesis
        using b unfolding answer_def by auto
    qed (simp add: query_command_def)
  qed
  show "answers {Bad_request} E (\<lambda>now ty. update_command E now)"
  proof (rule answersI)
    fix now ty view i and st :: "'a state" and m
    assume ok: "state_ok st" "unwritten m"
    show "update_command E now view i (st, m) = Inl Bad_request \<or>
      (\<exists>r. update_command E now view i (st, m) = Inr r \<and> answer E m r)"
    proof (cases "parse_update E view")
      case (Some r)
      have "entries_ok st" using ok(1) by (simp add: state_ok_def)
      from update_command_slots [OF this Some, of now i m] show ?thesis
        using answer_status(1) by metis
    qed (simp add: update_command_def)
  qed
  show "answers {Bad_request} E (purge_command E)"
  proof (rule answersI)
    fix now ty view i and st :: "'a state" and m
    assume ok: "state_ok st" "unwritten m"
    show "purge_command E now ty view i (st, m) = Inl Bad_request \<or>
      (\<exists>r. purge_command E now ty view i (st, m) = Inr r \<and> answer E m r)"
    proof (cases "parse_purge E view")
      case (Some k)
      have "entries_ok st" using ok(1) by (simp add: state_ok_def)
      from purge_command_slots [OF this Some, of now ty i m] show ?thesis
        using answer_status(1) by metis
    qed (simp add: purge_command_def)
  qed
  show "answers {Bad_request} E (stat_command E)"
  proof (rule answersI)
    fix now ty view i and st :: "'a state" and m
    assume ok: "state_ok st" "unwritten m"
    show "stat_command E now ty view i (st, m) = Inl Bad_request \<or>
      (\<exists>r. stat_command E now ty view i (st, m) = Inr r \<and> answer E m r)"
    proof (cases "parse_stat E view")
      case (Some k)
      have "entries_ok st" using ok(1) by (simp add: state_ok_def)
      then show ?thesis
      proof (cases rule: find_or_fail_cases [where k = k])
        case hidden
        then show ?thesis using Some by (simp add: stat_command_def answer_status)
      next
        case (found n w st1)
        let ?ms = "[em_reads_per_minute (w_metrics w), em_writes_per_minute (w_metrics w),
          em_reads_accumulator (w_metrics w), em_writes_accumulator (w_metrics w)]"
        have "\<exists>m'. respond (8 * 4) (Ref success_response # map (\<lambda>x. Emit [word_to_le x]) ?ms) m = Inr m' \<and>
            gather E (st_storage st1) m' = opt_append (gather E (st_storage st1) m)
              (Some (1 # concat (map word_to_le ?ms)))"
          by (rule respond_answer [OF ok(2)]) simp_all
        then show ?thesis
          using Some found(1) answer_bytes by (force simp: stat_command_def)
      qed
    qed (simp add: stat_command_def)
  qed
qed

lemma answer_entries:
  assumes "gather E (st_storage st') m' =
    opt_append (gather E (st_storage st') m) (Some (entries_answer k g s))"
  shows "answer E m (st', m')"
proof -
  have "entries_answer k g s = 1 # tl (entries_answer k g s)"
    by (simp add: entries_answer_def fragmented_bytes_def)
  then show ?thesis using assms by (intro answer_bytes [where bs = "tl (entries_answer k g s)"]) simp
qed

lemma listing_answers:
  "answers {Bad_request} E (list_command E)" "answers {Bad_request} E (stats_command E)"
proof -
  show "answers {Bad_request} E (list_command E)"
  proof (rule answersI)
    fix now ty view i and st :: "'a state" and m
    assume ok: "state_ok st" "unwritten m"
    then have "entries_ok st" by (simp add: state_ok_def)
    from listing_messages [OF this ok(2), of E now ty view i]
    obtain st' m' where "list_command E now ty view i (st, m) = Inr (st', m')"
      "gather E (st_storage st') m' = opt_append (gather E (st_storage st') m)
        (Some (entries_answer (list_measure E) (list_record E) (st_storage st)))" by blast
    then show "list_command E now ty view i (st, m) = Inl Bad_request \<or>
      (\<exists>r. list_command E now ty view i (st, m) = Inr r \<and> answer E m r)"
      using answer_entries by metis
  qed
  show "answers {Bad_request} E (stats_command E)"
  proof (rule answersI)
    fix now ty view i and st :: "'a state" and m
    assume ok: "state_ok st" "unwritten m"
    then have "entries_ok st" by (simp add: state_ok_def)
    from listing_messages [OF this ok(2), of E now ty view i]
    obtain st' m' where "stats_command E now ty view i (st, m) = Inr (st', m')"
      "gather E (st_storage st') m' = opt_append (gather E (st_storage st') m)
        (Some (entries_answer stats_measure stats_record (st_storage st)))" by blast
    then show "stats_command E now ty view i (st, m) = Inl Bad_request \<or>
      (\<exists>r. stats_command E now ty view i (st, m) = Inr r \<and> answer E m r)"
      using answer_entries by metis
  qed
qed

lemma channel_entries:
  "ops_size (concat (map channel_entry xs)) = 40 * length xs"
  "list_all op_ok (concat (map channel_entry xs))"
  "\<exists>bs. ops_bytes E s (concat (map channel_entry xs)) = Some bs"
proof -
  show "ops_size (concat (map channel_entry xs)) = 40 * length xs"
    by (induction xs) (simp_all add: channel_entry_def)
  show "list_all op_ok (concat (map channel_entry xs))"
    by (induction xs) (simp_all add: channel_entry_def)
  have "\<forall>op \<in> set (concat (map channel_entry xs)). \<exists>ps. op = Emit ps"
    by (induction xs) (simp_all add: channel_entry_def)
  from emit_ops_bytes [OF this] show "\<exists>bs. ops_bytes E s (concat (map channel_entry xs)) = Some bs"
    by blast
qed

lemma subscribe_answers: "answers {Bad_request} E (subscribe_command E)"
proof (rule answersI)
  fix now ty view i and st :: "'a state" and m
  show "subscribe_command E now ty view i (st, m) = Inl Bad_request \<or>
    (\<exists>r. subscribe_command E now ty view i (st, m) = Inr r \<and> answer E m r)"
  proof (cases "parse_subscribe E view")
    case (Some c)
    obtain subs ok where "insert_subscription (make_subscription now i c) (st_subscriptions st) = (subs, ok)"
      by (cases "insert_subscription (make_subscription now i c) (st_subscriptions st)")
    then have "subscribe_command E now ty view i (st, m) =
        Inr (on_subscriptions (\<lambda>_. subs) st, emplace_back (status ok) m)"
      using Some by (simp add: subscribe_command_def)
    then show ?thesis using answer_status(1) by blast
  qed (simp add: subscribe_command_def)
qed

lemma unsubscribe_answers: "answers {Bad_request} E (unsubscribe_command E)"
proof (rule answersI)
  fix now ty view i and st :: "'a state" and m
  show "unsubscribe_command E now ty view i (st, m) = Inl Bad_request \<or>
    (\<exists>r. unsubscribe_command E now ty view i (st, m) = Inr r \<and> answer E m r)"
  proof (cases "parse_unsubscribe E view")
    case (Some c)
    then show ?thesis
      using answer_status(1) by (cases "is_subscribed i c (st_subscriptions st)")
        (auto simp: unsubscribe_command_def)
  qed (simp add: unsubscribe_command_def)
qed

lemma publish_answers: "answers {Bad_request} E (publish_command E)"
proof (rule answersI)
  fix now ty view i and st :: "'a state" and m
  assume ok: "state_ok st" "unwritten m"
  show "publish_command E now ty view i (st, m) = Inl Bad_request \<or>
    (\<exists>r. publish_command E now ty view i (st, m) = Inr r \<and> answer E m r)"
  proof (cases "parse_publish E view")
    case (Some r)
    from publish_command_delivers [OF ok(1) Some, of now ty i m]
    obtain st' b where "publish_command E now ty view i (st, m) = Inr (st', emplace_back (status b) m)"
      by blast
    then show ?thesis using answer_status(1) by blast
  qed (simp add: publish_command_def)
qed

lemma channel_answers: "answers {Bad_request} E (channel_command E)"
proof (rule answersI)
  fix now ty view i and st :: "'a state" and m
  assume ok: "state_ok st" "unwritten m"
  show "channel_command E now ty view i (st, m) = Inl Bad_request \<or>
    (\<exists>r. channel_command E now ty view i (st, m) = Inr r \<and> answer E m r)"
  proof (cases "parse_channel E view")
    case (Some c)
    define members where "members = range_by_channel c (st_subscriptions st)"
    let ?ops = "[Ref success_response, Emit [le64 (length members)]] @ concat (map channel_entry members)"
    note e = channel_entries [where xs = members]
    obtain bs where bs: "ops_bytes E (st_storage st) (concat (map channel_entry members)) = Some bs"
      using e(3) by blast
    have "\<exists>m'. respond (8 + (16 + 8 * 3) * length members) ?ops m = Inr m' \<and>
        gather E (st_storage st) m' = opt_append (gather E (st_storage st) m)
          (Some (1 # le64 (length members) @ bs))"
      by (rule respond_answer [OF ok(2)]) (use e(1,2) bs in \<open>simp_all del: ops_size_concat\<close>)
    then obtain m' where m': "respond (8 + (16 + 8 * 3) * length members) ?ops m = Inr m'"
        "answer E m (st, m')"
      using answer_bytes [of E st] by blast
    show ?thesis
    proof (cases "members = []")
      case True
      then have "channel_command E now ty view i (st, m) = Inr (st, emplace_back failed_response m)"
        using Some by (simp add: channel_command_def members_def)
      then show ?thesis using answer_status(2) by blast
    next
      case False
      have "channel_command E now ty view i (st, m) = Inr (st, m')"
        using Some False m'(1) unfolding members_def by (simp add: channel_command_def Let_def)
      then show ?thesis using m'(2) by blast
    qed
  qed (simp add: channel_command_def)
qed

lemma channels_answers: "answers {Bad_request} E (channels_command E)"
proof (rule answersI)
  fix now ty view i and st :: "'a state" and m
  assume ok: "state_ok st" "unwritten m"
  obtain m' fs where m': "channels_command E now ty view i (st, m) = Inr (st, m')"
    "gather E (st_storage st) m' = opt_append (gather E (st_storage st) m)
      (Some (fragmented_bytes channel_record cs_channel fs))"
    using channels_command_message [OF ok(2), of E now ty view i st "st_storage st"] by blast
  have "fragmented_bytes channel_record cs_channel fs = 1 # tl (fragmented_bytes channel_record cs_channel fs)"
    by (simp add: fragmented_bytes_def)
  with m'(2) have "gather E (st_storage st) m' = opt_append (gather E (st_storage st) m)
      (Some (1 # tl (fragmented_bytes channel_record cs_channel fs)))" by simp
  then have "answer E m (st, m')" by (rule answer_bytes)
  then show "channels_command E now ty view i (st, m) = Inl Bad_request \<or>
    (\<exists>r. channels_command E now ty view i (st, m) = Inr r \<and> answer E m r)"
    using m'(1) by blast
qed

lemma info_answers:
  assumes "request_codes_ok E" "parsers_ok E"
  shows "answers {Bad_request} E (whoami_command E)" "answers {Bad_request} E (connection_command E)"
    "answers {Bad_request} E (connections_command E)" "answers {Bad_request} E (info_command E)"
proof -
  have ok: "answer E m (st, m')" if "gather E (st_storage st) m' =
      opt_append (gather E (st_storage st) m) (Some ([1] @ bs))" for st :: "'a state" and m m' bs
    using answer_bytes [of E st m' m bs] that by simp
  show "answers {Bad_request} E (whoami_command E)"
    by (rule answersI) (use whoami_message ok in blast)
  show "answers {Bad_request} E (connections_command E)"
    by (rule answersI) (use connections_message [OF _ assms(1)] ok in blast)
  show "answers {Bad_request} E (info_command E)"
    by (rule answersI) (use info_message(1) [OF _ assms(1)] ok in blast)
  show "answers {Bad_request} E (connection_command E)"
  proof (rule answersI)
    fix now ty view j and st :: "'a state" and m
    assume st: "state_ok st" "unwritten m"
    show "connection_command E now ty view j (st, m) = Inl Bad_request \<or>
      (\<exists>r. connection_command E now ty view j (st, m) = Inr r \<and> answer E m r)"
    proof (cases "parse_connection E view")
      case (Some b)
      then have "length b \<le> 16" using assms(2) by (simp add: parsers_ok_def)
      then obtain i where i: "request_uuid b = Inr i" by (simp add: request_uuid_def)
      note c = connection_command_lookup [OF st(1) assms(1) st(2) Some i, where now = now and ty = ty and j = j]
      show ?thesis
      proof (cases "i \<in> live_ids st")
        case True
        then obtain k c where "(i, c) \<in> set (st_connections st k)"
          by (auto simp: live_ids_def ids_def)
        from c(2) [OF this, of "st_storage st"] show ?thesis using ok by blast
      next
        case False
        from c(1) [OF this] show ?thesis using answer_status(2) by metis
      qed
    qed (simp add: connection_command_def)
  qed
qed

section \<open>The dispatch\<close>

lemma base_answers: "answers {Bad_request} E base_command"
  by (rule answersI) (metis answer_status(2) base_command_def prod.case)

lemma plain_answers:
  assumes "request_codes_ok E" "parsers_ok E" "(r, f) \<in> set (command_functions E d)" "r \<noteq> Event_req"
  shows "answers {Bad_request} E f"
  using assms(3,4) insert_set_answer [OF assms(2)] entry_answers listing_answers subscribe_answers
    unsubscribe_answers publish_answers channel_answers channels_answers info_answers [OF assms(1,2)]
  by (auto simp: command_functions_def)

lemma unwritten_emplace: "unwritten m \<Longrightarrow> unwritten (emplace_back success_response m)"
  by (simp add: unwritten_def emplace_back_def success_response_def)

lemma answer_nested:
  assumes "answer E (emplace_back success_response m) r"
  shows "answer E m r"
proof -
  obtain st' m' where r: "r = (st', m')" by (cases r)
  obtain b bs where b: "gather E (st_storage st') m' =
      opt_append (gather E (st_storage st') (emplace_back success_response m)) (Some (b # bs))"
    using assms by (auto simp: answer_def r)
  have "gather E (st_storage st') (emplace_back success_response m) =
      opt_append (gather E (st_storage st') m) (Some [1])"
    by (simp add: gather_emplace_back)
  then have "gather E (st_storage st') m' = opt_append (gather E (st_storage st') m) (Some (1 # b # bs))"
    using b by (simp add: opt_append_assoc)
  then show ?thesis unfolding r by (rule answer_bytes)
qed

definition answers_within :: "nat \<Rightarrow> ('v::len, 'x) protocol_scheme \<Rightarrow> 'v command \<Rightarrow> bool" where
  "answers_within n E f \<longleftrightarrow> (\<forall>now ty view i st m. length view < n \<longrightarrow> state_ok st \<longrightarrow> unwritten m \<longrightarrow>
     (case f now ty view i (st, m) of Inl e \<Rightarrow> e \<in> {Bad_request, Out_of_bounds} | Inr r \<Rightarrow> answer E m r))"

lemma answers_withinI: "answers {Bad_request} E f \<Longrightarrow> answers_within n E f"
  unfolding answers_def answers_within_def by (metis (no_types, lifting) insertCI singletonD sum.case_eq_if)

lemma event_answers:
  assumes "parsers_ok E" "answers_within n E d"
  shows "answers_within (Suc n) E (event_command E d)"
  unfolding answers_within_def
proof (intro allI impI)
  fix now ty i m and view :: bytes and st :: "'a state"
  assume len: "length view < Suc n" and ok: "state_ok st" "unwritten m"
  show "case event_command E d now ty view i (st, m) of
      Inl e \<Rightarrow> e \<in> {Bad_request, Out_of_bounds} | Inr r \<Rightarrow> answer E m r"
  proof (cases "parse_event E view")
    case (Some r)
    then have shorter: "length (evt_buffer r) < n" using assms(1) len by (fastforce simp: parsers_ok_def)
    show ?thesis
    proof (cases "evt_buffer r")
      case (Cons ty' rest)
      show ?thesis
      proof (cases "mark_command ty' (st_commands st)")
        case (Inr ms)
        let ?st = "st\<lparr>st_commands := ms\<rparr>" and ?m = "emplace_back success_response m"
        have "length ms = 32" using length_mark_command [OF Inr] ok(1) by (simp add: state_ok_def)
        then have "state_ok ?st" by (rule state_ok_commands(1) [OF ok(1)])
        then have "case d now ty' (evt_buffer r) i (?st, ?m) of
            Inl e \<Rightarrow> e \<in> {Bad_request, Out_of_bounds} | Inr x \<Rightarrow> answer E ?m x"
          using assms(2) shorter unwritten_emplace [OF ok(2)] unfolding answers_within_def by blast
        then show ?thesis
          using Some Cons Inr answer_nested by (auto simp: event_command_def split: sum.splits)
      qed (use Some Cons in \<open>auto simp: event_command_def mark_command_def split: if_splits\<close>)
    qed (use Some in \<open>simp add: event_command_def\<close>)
  qed (simp add: event_command_def)
qed

lemma dispatch_answers:
  assumes "request_codes_ok E" "parsers_ok E"
  shows "answers_within n E (dispatch n E)"
  using assms(1)
proof (induction rule: dispatch_induct)
  case fuel
  show ?case by (simp add: answers_within_def)
next
  case (other n)
  show ?case by (rule answers_withinI [OF base_answers])
next
  case (step n d r f)
  show ?case
  proof (cases "r = Event_req")
    case True
    have "(Event_req, event_command E d) \<in> set (command_functions E d)" by (simp add: command_functions_def)
    then have "f = event_command E d"
      using step(2) True eq_key_imp_eq_value [OF distinct_command_functions] by blast
    then show ?thesis using event_answers [OF assms(2) step(1)] by simp
  next
    case False
    then show ?thesis using answers_withinI [OF plain_answers [OF assms step(2)]] by simp
  qed
next
  case (select n g)
  then show ?case unfolding answers_within_def by blast
qed

lemma call_answers_helper:
  assumes "request_codes_ok E" "parsers_ok E" "state_ok st" "unwritten m"
  shows "case call E now ty view i (st, m) of
      Inl e \<Rightarrow> e = Bad_request \<or> e = Out_of_bounds \<and> ty = request_code E Event_req
    | Inr (st', m') \<Rightarrow> \<exists>b bs. b \<in> {0, 1} \<and>
        gather E (st_storage st') m' = opt_append (gather E (st_storage st') m) (Some (b # bs))"
proof -
  let ?d = "dispatch (length view) E"
  have all: "case call E now ty view i (st, m) of
      Inl e \<Rightarrow> e \<in> {Bad_request, Out_of_bounds} | Inr r \<Rightarrow> answer E m r"
    using dispatch_answers [OF assms(1,2), of "Suc (length view)"] assms(3,4)
    unfolding answers_within_def call_def by blast
  have "e = Bad_request" if "call E now ty view i (st, m) = Inl e" "ty \<noteq> request_code E Event_req" for e
  proof -
    have "answers {Bad_request} E (commands E ?d ! unat ty)"
    proof (cases ty rule: commands_cases [OF assms(1), where d = ?d])
      case 1
      then show ?thesis using base_answers by simp
    next
      case (2 r f)
      then show ?thesis using plain_answers [OF assms(1,2) 2(2)] that(2) by auto
    qed
    then have "case (commands E ?d ! unat ty) now ty view i (st, m) of
        Inl e \<Rightarrow> e \<in> {Bad_request} | Inr r \<Rightarrow> answer E m r"
      using assms(3,4) unfolding answers_def by blast
    then show ?thesis using that(1) by (simp add: call_def)
  qed
  then show ?thesis
    using all by (auto simp: answer_def split: sum.splits)
qed


lemma event_out_of_bounds:
  assumes "request_codes_ok E" "parse_event E view = Some r" "state_ok st"
    and "evt_buffer r = [] \<or> 32 \<le> unat (hd (evt_buffer r))"
  shows "call E now (request_code E Event_req) view i (st, m) = Inl Out_of_bounds"
proof -
  let ?d = "dispatch (length view) E"
  have "commands E ?d ! unat (request_code E Event_req) = event_command E ?d"
    by (rule command_of_request [OF assms(1)]) (simp add: command_functions_def)
  moreover have "length (st_commands st) = 32" using assms(3) by (simp add: state_ok_def)
  ultimately show ?thesis
    using assms(2,4) by (cases "evt_buffer r") (auto simp: call_def event_command_def mark_command_def)
qed

text \<open>An event whose payload is empty makes the server read the first byte of an empty span, and
  one whose payload starts with a byte of 32 or more makes it count a command outside the table of 32
  metrics, although the table of commands has a slot for it.\<close>

theorem event_payload_out_of_bounds:
  assumes "request_codes_ok E" "parse_event E view = Some r" "state_ok st"
    and "evt_buffer r = [] \<or> 32 \<le> unat (hd (evt_buffer r))"
  shows "call E now (request_code E Event_req) view i (st, m) = Inl Out_of_bounds"
  by (rule event_out_of_bounds [OF assms])

lemma sample_parsers_ok: "parsers_ok (sample_protocol :: 16 protocol)"
  by (auto simp: parsers_ok_def sample_protocol_def Let_def field_def split: if_splits)


theorem event_payload_out_of_bounds_witness:
  "call (sample_protocol :: 16 protocol) 9 19 [19, 1, 1, 0, 5, 200] 1 (two_clients, new_message) = Inl Out_of_bounds"
proof -
  have p: "parse_event (sample_protocol :: 16 protocol) [19, 1, 1, 0, 5, 200] =
      Some \<lparr>evt_channel = [5], evt_buffer = [200]\<rparr>"
    by (simp add: sample_protocol_def Let_def field_def byte_at_def le_to_word_def)
  show ?thesis
    using event_payload_out_of_bounds [OF sample_request_codes_ok p two_clients_ok, of 9 1 new_message] by simp
qed

end
