(* ===== verification/Circular_Buffer.thy ===== *)
theory Circular_Buffer
  imports Prelude
begin

text \<open>
  What the program relies on of \<open>boost::circular_buffer\<close>, which is not part of the repository: a
  buffer with a capacity, whose \<open>push_back\<close> on a full buffer overwrites the front element and on a
  buffer of capacity 0 does nothing. The laws are a locale; the list below is the concrete buffer that
  the connections (\<open>pending_writes_\<close>) and the pools (\<open>available_\<close>, \<open>used_\<close>) of the model hold.
\<close>

locale bounded_queue =
  fixes push :: "nat \<Rightarrow> 'a \<Rightarrow> 'a list \<Rightarrow> 'a list"
  assumes push_below: "length xs < n \<Longrightarrow> push n x xs = xs @ [x]"
    and push_full: "length xs = n \<Longrightarrow> 0 < n \<Longrightarrow> push n x xs = tl xs @ [x]"
    and push_none: "push 0 x [] = []"
begin

lemma length_push: "length xs \<le> n \<Longrightarrow> length (push n x xs) = min n (Suc (length xs))"
  by (cases "length xs = n"; cases n) (auto simp: push_below push_full push_none)

lemma push_latest:
  assumes "length xs \<le> n"
  shows "push n x xs = drop (Suc (length xs) - n) (xs @ [x])"
proof (cases "length xs = n")
  case True
  then show ?thesis by (cases n; cases xs) (simp_all add: push_full push_none)
next
  case False
  then show ?thesis using assms by (simp add: push_below)
qed

text \<open>Many pushes leave the latest elements that fit.\<close>

lemma push_many:
  assumes "length xs \<le> n"
  shows "fold (push n) ys xs = drop (length xs + length ys - n) (xs @ ys)"
  using assms
proof (induction ys arbitrary: xs)
  case (Cons y ys)
  have "length (push n y xs) \<le> n" using length_push [OF Cons.prems] by simp
  then have IH: "fold (push n) (y # ys) xs = drop (length (push n y xs) + length ys - n) (push n y xs @ ys)"
    using Cons.IH by simp
  consider (below) "length xs < n" | (none) "n = 0" "xs = []" | (full) z zs where "xs = z # zs" "length xs = n"
    using Cons.prems by (cases "length xs < n"; cases xs) auto
  then show ?case
  proof cases
    case below
    then show ?thesis unfolding IH push_below [OF below] by simp
  next
    case none
    then show ?thesis unfolding IH by (simp add: push_none)
  next
    case full
    then have "push n y xs = zs @ [y]" using push_full [of xs n y] by fastforce
    then show ?thesis unfolding IH using full(1) full(2) [symmetric] by simp
  qed
qed simp

lemma push_many_fits: "length xs + length ys \<le> n \<Longrightarrow> fold (push n) ys xs = xs @ ys"
  by (simp add: push_many)

lemma set_push: "length xs \<le> n \<Longrightarrow> set (push n x xs) \<subseteq> insert x (set xs)"
  using set_drop_subset by (fastforce simp: push_latest)

end

definition push_back :: "nat \<Rightarrow> 'a \<Rightarrow> 'a list \<Rightarrow> 'a list" where
  "push_back n x xs = (if length xs < n then xs @ [x] else if n = 0 then xs else tl xs @ [x])"

interpretation cb: bounded_queue push_back
  by unfold_locales (auto simp: push_back_def)

end
