(* ===== verification/Connection.thy ===== *)
theory Connection
  imports Commands_Answers Circular_Buffer
begin

text \<open>
  \<open>connection.ipp\<close>: reading from the socket into the fixed buffer, cutting the bytes received into
  requests, running them, and the queue of answers to write. A handler runs on the connection object
  that the state holds under the connection's id. \<open>messages_pool::take_one()\<close> appears as a new
  message: theory Pools shows that a message handed out is empty and not in use.
\<close>

section \<open>The receive buffer\<close>

text \<open>The bytes received and not yet consumed, \<open>_span\<close> in the code.\<close>

definition pending :: "connection \<Rightarrow> bytes" where
  "pending c = take (c_buffer_end c - c_buffer_start c) (drop (c_buffer_start c) (c_buffer c))"

definition compact_buffer :: "connection \<Rightarrow> connection" where
  "compact_buffer c =
     (if c_buffer_start c = c_buffer_end c then c
      else c\<lparr>c_buffer := pending c @ drop (length (pending c)) (c_buffer c),
             c_buffer_end := c_buffer_end c - c_buffer_start c, c_buffer_start := 0\<rparr>)"

definition compact_buffer_if_needed :: "connection \<Rightarrow> connection" where
  "compact_buffer_if_needed c =
     (if c_buffer_start c = c_buffer_end c then c\<lparr>c_buffer_start := 0, c_buffer_end := 0\<rparr>
      else if c_buffer_start c > max_length div 2 then compact_buffer c else c)"

text \<open>\<open>do_read\<close> starts an \<open>async_read_some\<close> into the space after the buffered bytes.\<close>

definition do_read :: "connection \<Rightarrow> connection" where
  "do_read c = (if c_buffer_end c = max_length then compact_buffer c else c)\<lparr>c_reading := True\<rparr>"

definition room :: "connection \<Rightarrow> nat" where
  "room c = max_length - c_buffer_end c"

definition close :: "connection \<Rightarrow> connection" where
  "close c = c\<lparr>c_open := False\<rparr>"

text \<open>The outcome of the read: \<open>data\<close> lies in the buffer when \<open>on_read\<close> runs.\<close>

definition received :: "bytes \<Rightarrow> connection \<Rightarrow> connection" where
  "received data c =
     (let e = c_buffer_end c; m = c_metrics c
      in c\<lparr>c_buffer := take e (c_buffer c) @ data @ drop (e + length data) (c_buffer c),
           c_metrics := m\<lparr>cm_network := (cm_network m)
             \<lparr>net_read_bytes := mark (of_nat (length data)) (net_read_bytes (cm_network m))\<rparr>\<rparr>,
           c_buffer_end := e + length data, c_reading := False\<rparr>)"

section \<open>try_process_next\<close>

definition the_connection :: "connection_map \<Rightarrow> uuid \<Rightarrow> 'v::len state \<Rightarrow> connection option" where
  "the_connection k i st = map_of (st_connections st k) i"

definition consume :: "nat \<Rightarrow> connection \<Rightarrow> connection" where
  "consume n c = c\<lparr>c_buffer_start := c_buffer_start c + n\<rparr>"

definition set_commands :: "metric list \<Rightarrow> connection \<Rightarrow> connection" where
  "set_commands ms c = c\<lparr>c_metrics := (c_metrics c)\<lparr>cm_commands := ms\<rparr>\<rparr>"

text \<open>One turn of the loop for the request \<open>view\<close> at the front of the buffer.\<close>

definition serve_request ::
  "('v::len, 'x) protocol_scheme \<Rightarrow> u64 \<Rightarrow> connection_map \<Rightarrow> uuid \<Rightarrow> bytes \<Rightarrow> 'v state \<Rightarrow> 'v state res" where
  "serve_request E now k i view st =
     (let ty = hd view; st1 = on_connection k i (consume (length view)) st
      in bind_res (mark_command ty (st_commands st1)) (\<lambda>ms.
         bind_res (of_option Dangling (the_connection k i st1)) (\<lambda>c.
         bind_res (mark_command ty (cm_commands (c_metrics c))) (\<lambda>own.
         bind_res (call E now ty view i
             (on_connection k i (set_commands own) (st1\<lparr>st_commands := ms\<rparr>), new_message))
           (\<lambda>(st2, m). Inr (on_connection k i (send m) st2))))))"

text \<open>The loop; \<open>clock t\<close> is the \<open>t\<close>-th reading of the system clock.\<close>

fun process_loop ::
  "nat \<Rightarrow> ('v::len, 'x) protocol_scheme \<Rightarrow> (nat \<Rightarrow> u64) \<Rightarrow> nat \<Rightarrow> connection_map \<Rightarrow> uuid \<Rightarrow> 'v state
     \<Rightarrow> 'v state res" where
  "process_loop 0 E clock t k i st = Inl Out_of_fuel"
| "process_loop (Suc fuel) E clock t k i st =
     bind_res (of_option Dangling (the_connection k i st)) (\<lambda>c.
     bind_res (get_message_size E (pending c)) (\<lambda>n.
       if n = 0 \<or> length (pending c) < n then Inr st
       else bind_res (serve_request E (clock t) k i (take n (pending c)) st)
              (process_loop fuel E clock (Suc t) k i)))"

text \<open>Each turn consumes at least one byte, so the fuel is the number of bytes buffered.\<close>

definition try_process_next ::
  "('v::len, 'x) protocol_scheme \<Rightarrow> (nat \<Rightarrow> u64) \<Rightarrow> connection_map \<Rightarrow> uuid \<Rightarrow> 'v state \<Rightarrow> 'v state res" where
  "try_process_next E clock k i st =
     bind_res (of_option Dangling (the_connection k i st)) (\<lambda>c.
     bind_res (process_loop (Suc (length (pending c))) E clock 0 k i st) (\<lambda>st'.
       Inr (on_connection k i (do_read \<circ> compact_buffer_if_needed) st')))"

text \<open>The completion of a read, with the bytes received or with an error.\<close>

definition on_read ::
  "('v::len, 'x) protocol_scheme \<Rightarrow> (nat \<Rightarrow> u64) \<Rightarrow> connection_map \<Rightarrow> uuid \<Rightarrow> bytes option \<Rightarrow> 'v state
     \<Rightarrow> 'v state res" where
  "on_read E clock k i outcome st = (case outcome of
       Some data \<Rightarrow> try_process_next E clock k i (on_connection k i (received data) st)
     | None \<Rightarrow> Inr (on_connection k i (\<lambda>c. close (c\<lparr>c_reading := False\<rparr>)) st))"

definition start :: "('v::len, 'x) protocol_scheme \<Rightarrow> u64 \<Rightarrow> connection \<Rightarrow> 'v state \<Rightarrow> 'v state" where
  "start E now c st = on_connection (home c) (c_id c) do_read (join E now c st)"

section \<open>The write queue\<close>

definition pending_capacity :: nat where "pending_capacity = 1024"

definition write_next :: "connection \<Rightarrow> connection" where
  "write_next c = (case c_pending_writes c of [] \<Rightarrow> c | m # _ \<Rightarrow> c\<lparr>c_writing := Some m\<rparr>)"

definition on_send :: "message \<Rightarrow> connection \<Rightarrow> connection" where
  "on_send m c =
     (let c' = c\<lparr>c_pending_writes := push_back pending_capacity m (c_pending_writes c)\<rparr>
      in if length (c_pending_writes c') > 1 then c' else write_next c')"

text \<open>The executor of the socket runs the first \<open>on_send\<close> posted.\<close>

definition run_posted :: "connection \<Rightarrow> connection" where
  "run_posted c = (case c_posted c of [] \<Rightarrow> c | m # ms \<Rightarrow> on_send m (c\<lparr>c_posted := ms\<rparr>))"

definition on_write :: "bool \<Rightarrow> nat \<Rightarrow> connection \<Rightarrow> connection" where
  "on_write error n c =
     (let m = c_metrics c;
          c1 = c\<lparr>c_writing := None, c_metrics := m\<lparr>cm_network := (cm_network m)
             \<lparr>net_write_bytes := mark (of_nat n) (net_write_bytes (cm_network m))\<rparr>\<rparr>\<rparr>
      in if error then close c1
         else case c_pending_writes c1 of
             [] \<Rightarrow> c1
           | _ # ms \<Rightarrow>
               let c2 = c1\<lparr>c_pending_writes := ms\<rparr>
               in if ms \<noteq> [] then write_next c2 else c2)"

section \<open>The buffer invariant\<close>

definition buffer_ok :: "connection \<Rightarrow> bool" where
  "buffer_ok c \<longleftrightarrow> length (c_buffer c) = max_length \<and> c_buffer_start c \<le> c_buffer_end c \<and>
     c_buffer_end c \<le> max_length"

lemma max_length_pos [simp]: "0 < max_length"
  by (simp add: max_length_def)

lemma length_pending: "buffer_ok c \<Longrightarrow> length (pending c) = c_buffer_end c - c_buffer_start c"
  by (auto simp: buffer_ok_def pending_def)

lemma compact_buffer_pending [simp]: "buffer_ok c \<Longrightarrow> pending (compact_buffer c) = pending c"
  using length_pending [of c] by (auto simp: compact_buffer_def) (auto simp: pending_def)

lemma compact_buffer_ok [simp]: "buffer_ok c \<Longrightarrow> buffer_ok (compact_buffer c)"
  using length_pending [of c] by (auto simp: compact_buffer_def buffer_ok_def)

lemma compact_buffer_end:
  "buffer_ok c \<Longrightarrow> pending c \<noteq> [] \<Longrightarrow> c_buffer_end (compact_buffer c) = length (pending c)"
  using length_pending [of c] by (auto simp: compact_buffer_def)

lemma compact_if_needed_pending [simp]: "buffer_ok c \<Longrightarrow> pending (compact_buffer_if_needed c) = pending c"
  by (simp add: compact_buffer_if_needed_def) (simp add: pending_def)

lemma compact_if_needed_ok [simp]: "buffer_ok c \<Longrightarrow> buffer_ok (compact_buffer_if_needed c)"
  by (simp add: compact_buffer_if_needed_def) (simp add: buffer_ok_def)

lemma do_read_pending [simp]: "buffer_ok c \<Longrightarrow> pending (do_read c) = pending c"
  using compact_buffer_pending [of c] by (auto simp: do_read_def pending_def)

lemma do_read_ok [simp]: "buffer_ok c \<Longrightarrow> buffer_ok (do_read c)"
  using compact_buffer_ok [of c] by (auto simp: do_read_def buffer_ok_def)

lemma received_pending:
  assumes "buffer_ok c" "length data \<le> room c"
  shows "pending (received data c) = pending c @ data" "buffer_ok (received data c)"
proof -
  have l: "c_buffer_end c + length data \<le> length (c_buffer c)"
    using assms by (auto simp: buffer_ok_def room_def)
  have "drop (c_buffer_start c) (take (c_buffer_end c) (c_buffer c)) = pending c"
    by (simp add: pending_def drop_take)
  then show "pending (received data c) = pending c @ data"
    using assms l by (simp add: pending_def received_def Let_def buffer_ok_def)
  show "buffer_ok (received data c)"
    using assms l by (simp add: received_def Let_def buffer_ok_def room_def)
qed

lemma consume_pending:
  assumes "buffer_ok c" "n \<le> length (pending c)"
  shows "pending (consume n c) = drop n (pending c)" "buffer_ok (consume n c)"
  using assms(2) length_pending [OF assms(1)] assms(1)
  by (auto simp: pending_def consume_def buffer_ok_def add.commute drop_take)

text \<open>Moving bytes to the front of the buffer keeps the bytes not yet consumed, in \<open>compact_buffer\<close>
  and in what \<open>do_read\<close> does before it reads; afterwards there is room to read, unless these bytes fill
  the whole buffer.\<close>

theorem do_read_has_room:
  assumes "buffer_ok c"
  defines "c' \<equiv> do_read (compact_buffer_if_needed c)"
  shows "buffer_ok c' \<and> pending c' = pending c \<and> c_reading c' \<and>
    (room c' = 0 \<longleftrightarrow> length (pending c) = max_length)"
proof -
  let ?d = "compact_buffer_if_needed c"
  have d: "buffer_ok ?d" "pending ?d = pending c" using assms(1) by simp_all
  have len: "length (pending c') = c_buffer_end c' - c_buffer_start c'" "buffer_ok c'" "pending c' = pending c"
    using d length_pending [of "do_read ?d"] unfolding c'_def by simp_all
  have "room c' = 0 \<Longrightarrow> length (pending c) = max_length"
  proof -
    assume r: "room c' = 0"
    then have e: "c_buffer_end c' = max_length" using len(2) by (simp add: room_def buffer_ok_def)
    have "c_buffer_end ?d = max_length"
    proof (rule ccontr)
      assume "c_buffer_end ?d \<noteq> max_length"
      then show False using e by (simp add: c'_def do_read_def)
    qed
    then have "c' = (compact_buffer ?d)\<lparr>c_reading := True\<rparr>" by (simp add: c'_def do_read_def)
    moreover have "pending ?d \<noteq> []"
    proof
      assume "pending ?d = []"
      then have "c_buffer_start ?d = c_buffer_end ?d"
        using length_pending [OF d(1)] d(1) by (simp add: buffer_ok_def)
      moreover from this have "c_buffer_end ?d = 0"
        by (auto simp: compact_buffer_if_needed_def compact_buffer_def split: if_splits)
      ultimately show False using \<open>c_buffer_end ?d = max_length\<close> by (simp add: max_length_def)
    qed
    ultimately show ?thesis using compact_buffer_end [OF d(1)] e d(2) by simp
  qed
  moreover have "length (pending c) = max_length \<Longrightarrow> room c' = 0"
    using len by (simp add: room_def)
  ultimately show ?thesis using len(2,3) by (auto simp: c'_def do_read_def)
qed

section \<open>Looking at one connection\<close>

lemma the_connection_on:
  "the_connection k' j (on_connection k i f st) =
     map_option (if k' = k \<and> j = i then f else id) (the_connection k' j st)"
proof -
  have "map_of (map (\<lambda>(j, c). (j, if j = i then f c else c)) m) j =
      map_option (if j = i then f else id) (map_of m j)" for m :: connections
    by (induction m) (auto simp: option.map_id)
  then show ?thesis by (auto simp: the_connection_def on_connection_def option.map_id)
qed

lemma the_connection_Some:
  "connections_ok st \<Longrightarrow> the_connection k i st = Some c \<longleftrightarrow> (i, c) \<in> set (st_connections st k)"
  using connections_okD(1) [of st k] by (simp add: the_connection_def)

lemma the_connection_live: "the_connection k i st = Some c \<Longrightarrow> i \<in> live_ids st"
  by (force simp: the_connection_def live_ids_def ids_def dest: map_of_SomeD)

lemma the_connection_commands [simp]: "the_connection k i (st\<lparr>st_commands := ms\<rparr>) = the_connection k i st"
  by (simp add: the_connection_def)

text \<open>What a connection keeps apart from its metrics and its posted messages.\<close>

definition rx_of :: "connection_map \<Rightarrow> uuid \<Rightarrow> 'v::len state \<Rightarrow> _ option" where
  "rx_of k i st = map_option rx (the_connection k i st)"

text \<open>The write queue and whether the socket is open.\<close>

definition wq :: "connection \<Rightarrow> message list \<times> message option \<times> bool" where
  "wq c = (c_pending_writes c, c_writing c, c_open c)"

lemma rx_of_same:
  assumes "same_rx st st'"
  shows "rx_of k i st' = rx_of k i st"
proof -
  have "map_of (map (\<lambda>(j, c). (j, rx c)) m) i = map_option rx (map_of m i)" for m :: connections
    by (induction m) auto
  then show ?thesis
    using same_rx_map [OF assms] unfolding rx_of_def the_connection_def by metis
qed

lemma rx_of_on:
  "rx_of k' j (on_connection k i f st) =
     (if k' = k \<and> j = i then map_option (rx \<circ> f) (the_connection k i st) else rx_of k' j st)"
  by (simp add: rx_of_def the_connection_on option.map_comp option.map_id)

lemma state_ok_on_connection:
  assumes "state_ok st" "the_connection k i st = Some c"
    and f: "c_id (f c) = c_id c" "home (f c) = home c" "length (cm_commands (c_metrics (f c))) = 32"
  shows "state_ok (on_connection k i f st)"
proof -
  have ok: "connections_ok st" using assms(1) by (simp add: state_ok_def)
  have c: "d = c" if "(i, d) \<in> set (st_connections st k)" for d
    using the_connection_Some [OF ok, of k i d] that assms(2) by simp
  have "map fst (st_connections (on_connection k i f st) k') = map fst (st_connections st k')" for k'
    by (auto simp: on_connection_def)
  moreover have "c_id d = j \<and> home d = k' \<and> length (cm_commands (c_metrics d)) = 32"
    if d: "(j, d) \<in> set (st_connections (on_connection k i f st) k')" for k' j d
  proof -
    consider "(j, d) \<in> set (st_connections st k')" | "k' = k" "j = i" "d = f c"
      using d c by (auto simp: on_connection_def split: if_splits)
    then show ?thesis
    proof cases
      case 1
      then show ?thesis using connections_okD(2-4) [OF ok] by blast
    next
      case 2
      then show ?thesis
        using f the_connection_Some [OF ok, of k i c] assms(2) connections_okD(2,3) [OF ok] by auto
    qed
  qed
  ultimately have "connections_ok (on_connection k i f st)"
    using ok unfolding connections_ok_def by (metis on_connection_ids)
  then show ?thesis using assms(1) by (simp add: state_ok_def entries_ok_def subscriptions_ok_def)
qed

section \<open>Requests on the wire\<close>

text \<open>Cutting a sequence of bytes into requests: each with the size its header declares, and the rest.\<close>

function frames :: "('v::len, 'x) protocol_scheme \<Rightarrow> bytes \<Rightarrow> bytes list \<times> bytes" where
  "frames E b = (case get_message_size E b of
       Inl e \<Rightarrow> ([], b)
     | Inr n \<Rightarrow> if n = 0 \<or> length b < n then ([], b)
              else let (views, rest) = frames E (drop n b) in (take n b # views, rest))"
  by pat_completeness auto
termination by (relation "measure (\<lambda>(E, b). length b)") auto

declare frames.simps [simp del]

lemma frames_concat: "concat (fst (frames E b)) @ snd (frames E b) = b"
proof (induction E b rule: frames.induct)
  case (1 E b)
  then show ?case
    by (subst (1 2) frames.simps) (auto split: sum.split prod.split if_split)
qed

lemma frames_nonempty: "v \<in> set (fst (frames E b)) \<Longrightarrow> v \<noteq> []"
proof (induction E b rule: frames.induct)
  case (1 E b)
  then show ?case
    by (subst (asm) (2) frames.simps) (auto split: sum.split_asm prod.split_asm if_split_asm)
qed

lemma frames_append_helper:
  assumes "request_codes_ok E" "layout_ok E"
  shows "frames E (a @ b) = (fst (frames E a) @ fst (frames E (snd (frames E a) @ b)),
      snd (frames E (snd (frames E a) @ b)))"
  using assms
proof (induction E a rule: frames.induct)
  case (1 E a)
  show ?case
  proof (cases "\<exists>n. get_message_size E a = Inr n \<and> n \<noteq> 0 \<and> n \<le> length a")
    case False
    then have "frames E a = ([], a)"
      by (subst frames.simps) (auto split: sum.split)
    then show ?thesis by simp
  next
    case True
    then obtain n where n: "get_message_size E a = Inr n" "n \<noteq> 0" "n \<le> length a" by blast
    then have "get_message_size E (a @ b) = Inr n"
      using get_message_size_append [OF "1.prems"] by simp
    then have "frames E (a @ b) = (take n a # fst (frames E (drop n a @ b)), snd (frames E (drop n a @ b)))"
      using n by (subst frames.simps) (simp split: prod.split)
    moreover have "frames E a = (take n a # fst (frames E (drop n a)), snd (frames E (drop n a)))"
      using n by (subst frames.simps) (simp split: prod.split)
    ultimately show ?thesis using "1.IH" [OF n(1)] n(2,3) "1.prems" by simp
  qed
qed

text \<open>C31: TCP may cut the bytes a client sends anywhere. Receiving them in two reads gives the requests of
  the first read followed by those of what was left of it with the second; together they are the requests
  of all the bytes at once, in order, with the same bytes left over.\<close>

theorem frames_append:
  assumes "request_codes_ok E" "layout_ok E"
  shows "frames E (a @ b) = (fst (frames E a) @ fst (frames E (snd (frames E a) @ b)),
      snd (frames E (snd (frames E a) @ b)))"
  by (rule frames_append_helper [OF assms])

theorem frames_append_witness:
  "frames (sample_protocol :: 16 protocol) ([2, 1] @ [7, 16]) = ([[2, 1, 7], [16]], [])"
proof -
  let ?E = "sample_protocol :: 16 protocol"
  have size: "get_message_size ?E b = (if b = [] then Inr 0 else case request_of ?E (hd b) of
      Some r \<Rightarrow> Inr (declared_size ?E r b) | None \<Rightarrow> if unat (hd b) < 32 then Inr 0 else Inl Out_of_bounds)" for b
    by (rule message_size_cases [OF sample_request_codes_ok sample_layout_ok])
  show ?thesis
    using frames_append [OF sample_request_codes_ok sample_layout_ok, of "[2, 1]" "[7, 16]"]
    by (simp add: frames.simps size request_of_def enum_request_types_def declared_size_def fixed_part_def)
qed

section \<open>Serving the requests buffered\<close>

text \<open>A request is counted, which may read outside a table, and then its command runs on a state in which the
  request has been consumed.\<close>

lemma serve_request_cases:
  assumes "state_ok st" "the_connection k i st = Some c"
  obtains (uncounted) "32 \<le> unat (hd v)" "serve_request E now k i v st = Inl Out_of_bounds"
  | (counted) st2 where
    "serve_request E now k i v st = bind_res (call E now (hd v) v i (st2, new_message)) (\<lambda>(st3, m).
       Inr (on_connection k i (send m) st3))"
    "state_ok st2" "i \<in> live_ids st2" "live_ids st2 = live_ids st" "rx_of k i st2 = Some (rx (consume (length v) c))"
    "map_option c_posted (the_connection k i st2) = Some (c_posted c)" "st_storage st2 = st_storage st"
    "st_tasks st2 = st_tasks st" "st_timer st2 = st_timer st"
    "\<forall>k' j. (k', j) \<noteq> (k, i) \<longrightarrow> rx_of k' j st2 = rx_of k' j st"
proof -
  let ?st1 = "on_connection k i (consume (length v)) st" and ?c1 = "consume (length v) c"
  have ok: "connections_ok st" using assms(1) by (simp add: state_ok_def)
  have len: "length (cm_commands (c_metrics c)) = 32"
    using connections_okD(4) [OF ok] assms(2) the_connection_Some [OF ok] by blast
  have st1: "state_ok ?st1" "the_connection k i ?st1 = Some ?c1"
    using state_ok_on_connection [OF assms, of "consume (length v)"] len assms(2)
    by (simp_all add: consume_def home_def the_connection_on)
  show thesis
  proof (cases "unat (hd v) < 32")
    case False
    then have "mark_command (hd v) (st_commands ?st1) = Inl Out_of_bounds"
      using assms(1) by (simp add: mark_command_def state_ok_def)
    then show thesis using False by (intro uncounted) (simp_all add: serve_request_def)
  next
    case True
    then obtain ms own where ms: "mark_command (hd v) (st_commands ?st1) = Inr ms"
      and own: "mark_command (hd v) (cm_commands (c_metrics ?c1)) = Inr own"
      using assms(1) len by (auto simp: mark_command_def state_ok_def consume_def)
    let ?st1' = "?st1\<lparr>st_commands := ms\<rparr>"
    let ?st2 = "on_connection k i (set_commands own) ?st1'"
    have "length ms = 32" using length_mark_command [OF ms] st1(1) by (simp add: state_ok_def)
    then have st1': "state_ok ?st1'" "live_ids ?st1' = live_ids ?st1" using state_ok_commands(1,2) [OF st1(1)] by blast+
    have c1': "the_connection k i ?st1' = Some ?c1" using st1(2) by simp
    have "length own = 32" using length_mark_command [OF own] len by (simp add: consume_def)
    then have st2: "state_ok ?st2"
      using state_ok_on_connection [OF st1'(1) c1', of "set_commands own"] by (simp add: set_commands_def home_def)
    have the2: "the_connection k i ?st2 = Some (set_commands own ?c1)"
      using assms(2) by (simp add: the_connection_on)
    show thesis
    proof (rule counted [OF _ st2 the_connection_live [OF the2]])
      show "serve_request E now k i v st = bind_res (call E now (hd v) v i (?st2, new_message)) (\<lambda>(st3, m).
          Inr (on_connection k i (send m) st3))"
        using ms own assms(2) by (simp add: serve_request_def the_connection_on)
      show "live_ids ?st2 = live_ids st" using st1'(2) by simp
      show "rx_of k i ?st2 = Some (rx ?c1)" using the2 by (simp add: rx_of_def set_commands_def rx_def)
      show "map_option c_posted (the_connection k i ?st2) = Some (c_posted c)"
        using the2 by (simp add: set_commands_def consume_def)
      show "st_storage ?st2 = st_storage st" "st_tasks ?st2 = st_tasks st" "st_timer ?st2 = st_timer st" by simp_all
      show "\<forall>k' j. (k', j) \<noteq> (k, i) \<longrightarrow> rx_of k' j ?st2 = rx_of k' j st"
        by (auto simp: rx_of_def the_connection_on option.map_id)
    qed
  qed
qed

lemma serve_request_frame:
  assumes "request_codes_ok E" "state_ok st" "the_connection k i st = Some c"
    and "serve_request E now k i v st = Inr st'"
  shows "state_ok st'" "rx_of k i st' = Some (rx (consume (length v) c))"
    "(k', j) \<noteq> (k, i) \<Longrightarrow> rx_of k' j st' = rx_of k' j st" "live_ids st' = live_ids st"
proof -
  obtain st2 where counted:
    "serve_request E now k i v st = bind_res (call E now (hd v) v i (st2, new_message)) (\<lambda>(st3, m).
       Inr (on_connection k i (send m) st3))"
    "state_ok st2" "i \<in> live_ids st2" "live_ids st2 = live_ids st" "rx_of k i st2 = Some (rx (consume (length v) c))"
    "\<forall>k' j. (k', j) \<noteq> (k, i) \<longrightarrow> rx_of k' j st2 = rx_of k' j st"
    by (rule serve_request_cases [OF assms(2,3), of v E now]) (use assms(4) in simp_all)
  obtain st3 m where call: "call E now (hd v) v i (st2, new_message) = Inr (st3, m)"
    and st': "st' = on_connection k i (send m) st3"
    using assms(4) counted(1) by (auto simp: res_simps)
  note keep = call_keeps [OF assms(1) counted(2,3) call]
  obtain c3 where c3: "the_connection k i st3 = Some c3" "rx c3 = rx (consume (length v) c)"
    using rx_of_same [OF keep(2), of k i] counted(5) by (auto simp: rx_of_def)
  show "rx_of k i st' = Some (rx (consume (length v) c))"
    using c3 by (simp add: st' rx_of_on send_def rx_def)
  have ok3: "connections_ok st3" using keep(1) by (simp add: state_ok_def)
  have "length (cm_commands (c_metrics c3)) = 32"
    using connections_okD(4) [OF ok3] c3(1) the_connection_Some [OF ok3] by blast
  then show "state_ok st'"
    unfolding st' by (intro state_ok_on_connection [OF keep(1) c3(1)]) (simp_all add: send_def home_def)
  show "live_ids st' = live_ids st" using keep(3) counted(4) by (simp add: st')
  show "rx_of k' j st' = rx_of k' j st" if "(k', j) \<noteq> (k, i)"
    using that counted(6) rx_of_same [OF keep(2), of k' j] by (auto simp: st' rx_of_on)
qed

lemma rx_buffer:
  assumes "rx c = rx d"
  shows "pending c = pending d" "buffer_ok c = buffer_ok d"
  using assms by (simp_all add: rx_def pending_def buffer_ok_def)

text \<open>What the loop should do: serve the requests cut from the buffer, one after the other.\<close>

fun serve_all ::
  "('v::len, 'x) protocol_scheme \<Rightarrow> (nat \<Rightarrow> u64) \<Rightarrow> nat \<Rightarrow> connection_map \<Rightarrow> uuid \<Rightarrow> bytes list \<Rightarrow> 'v state
     \<Rightarrow> 'v state res" where
  "serve_all E clock t k i [] st = Inr st"
| "serve_all E clock t k i (v # vs) st =
     bind_res (serve_request E (clock t) k i v st) (serve_all E clock (Suc t) k i vs)"

text \<open>A request served from the front of the buffer.\<close>

lemma serve_front:
  assumes "request_codes_ok E" "state_ok st" "the_connection k i st = Some c" "buffer_ok c"
    and "n \<le> length (pending c)" "serve_request E now k i (take n (pending c)) st = Inr st'"
  obtains c' where "the_connection k i st' = Some c'" "buffer_ok c'" "pending c' = drop n (pending c)"
    "state_ok st'" "wq c' = wq c"
proof -
  let ?v = "take n (pending c)"
  have len: "length ?v = n" using assms(5) by simp
  note frame = serve_request_frame [OF assms(1-3,6)]
  have "rx_of k i st' = Some (rx (consume n c))" using frame(2) len by simp
  then obtain c' where c': "the_connection k i st' = Some c'" "rx c' = rx (consume n c)"
    by (auto simp: rx_of_def)
  have "wq c' = wq c" using c'(2) by (simp add: rx_def wq_def consume_def)
  then show thesis
    by (intro that [OF c'(1)])
      (use rx_buffer [OF c'(2)] consume_pending [OF assms(4,5)] frame(1) in simp_all)
qed

lemma process_loop_serves:
  assumes "request_codes_ok E" "state_ok st" "the_connection k i st = Some c" "buffer_ok c"
    and "length (pending c) < fuel"
  shows "process_loop fuel E clock t k i st =
    bind_res (serve_all E clock t k i (fst (frames E (pending c))) st) (\<lambda>st'.
      bind_res (get_message_size E (snd (frames E (pending c)))) (\<lambda>_. Inr st'))"
  using assms(2-)
proof (induction fuel arbitrary: st c t)
  case (Suc fuel)
  let ?p = "pending c"
  show ?case
  proof (cases "\<exists>n. get_message_size E ?p = Inr n \<and> n \<noteq> 0 \<and> n \<le> length ?p")
    case False
    then have "frames E ?p = ([], ?p)" by (subst frames.simps) (auto split: sum.split)
    then show ?thesis
      using False Suc.prems(2) by (cases "get_message_size E ?p") auto
  next
    case True
    then obtain n where n: "get_message_size E ?p = Inr n" "n \<noteq> 0" "n \<le> length ?p" by blast
    then have f: "frames E ?p = (take n ?p # fst (frames E (drop n ?p)), snd (frames E (drop n ?p)))"
      by (subst frames.simps) (simp split: prod.split)
    show ?thesis
    proof (cases "serve_request E (clock t) k i (take n ?p) st")
      case (Inl e)
      then show ?thesis using n Suc.prems(2) f by simp
    next
      case (Inr st')
      obtain c' where c': "the_connection k i st' = Some c'" "buffer_ok c'" "pending c' = drop n ?p" "state_ok st'"
        using serve_front [OF assms(1) Suc.prems(1-3) n(3) Inr] .
      have "length (pending c') < fuel" using c'(3) n(2,3) Suc.prems(4) by simp
      from Suc.IH [OF c'(4,1,2) this, of "Suc t"] show ?thesis
        using n Suc.prems(2) f Inr c'(3) by simp
    qed
  qed
qed simp

lemma serve_all_frame:
  assumes "request_codes_ok E" "state_ok st" "the_connection k i st = Some c" "buffer_ok c"
    and "concat vs @ rest = pending c" "serve_all E clock t k i vs st = Inr st'"
  shows "state_ok st'" "live_ids st' = live_ids st"
    "\<exists>c'. the_connection k i st' = Some c' \<and> buffer_ok c' \<and> pending c' = rest \<and> wq c' = wq c"
    "(k', j) \<noteq> (k, i) \<Longrightarrow> rx_of k' j st' = rx_of k' j st"
proof -
  have "state_ok st' \<and> live_ids st' = live_ids st \<and>
      (\<exists>c'. the_connection k i st' = Some c' \<and> buffer_ok c' \<and> pending c' = rest \<and> wq c' = wq c) \<and>
      ((k', j) \<noteq> (k, i) \<longrightarrow> rx_of k' j st' = rx_of k' j st)"
    using assms(2-)
  proof (induction vs arbitrary: st c t)
    case (Cons v vs)
    from Cons.prems(5) obtain st1 where st1: "serve_request E (clock t) k i v st = Inr st1"
      "serve_all E clock (Suc t) k i vs st1 = Inr st'" by (auto simp: res_simps)
    have v: "take (length v) (pending c) = v" "length v \<le> length (pending c)"
      "drop (length v) (pending c) = concat vs @ rest"
      using Cons.prems(4) [symmetric] by simp_all
    obtain c1 where c1: "the_connection k i st1 = Some c1" "buffer_ok c1"
      "pending c1 = drop (length v) (pending c)" "state_ok st1" "wq c1 = wq c"
      using serve_front [OF assms(1) Cons.prems(1-3) v(2)] st1(1) v(1) by metis
    note frame = serve_request_frame [OF assms(1) Cons.prems(1,2) st1(1)]
    from Cons.IH [OF c1(4,1,2) _ st1(2)] v(3) c1(3,5) frame(3,4) show ?case by auto
  qed simp
  then show "state_ok st'" "live_ids st' = live_ids st"
    "\<exists>c'. the_connection k i st' = Some c' \<and> buffer_ok c' \<and> pending c' = rest \<and> wq c' = wq c"
    "(k', j) \<noteq> (k, i) \<Longrightarrow> rx_of k' j st' = rx_of k' j st" by blast+
qed

section \<open>Reading from the socket\<close>

lemma received_state:
  assumes "state_ok st" "the_connection k i st = Some c" "buffer_ok c" "length data \<le> room c"
  defines "st' \<equiv> on_connection k i (received data) st"
  shows "state_ok st'" "the_connection k i st' = Some (received data c)" "buffer_ok (received data c)"
    "pending (received data c) = pending c @ data"
proof -
  have ok: "connections_ok st" using assms(1) by (simp add: state_ok_def)
  have "length (cm_commands (c_metrics c)) = 32"
    using connections_okD(4) [OF ok] assms(2) the_connection_Some [OF ok] by blast
  then show "state_ok st'" unfolding st'_def
    by (intro state_ok_on_connection [OF assms(1,2)]) (simp_all add: received_def Let_def home_def)
  show "the_connection k i st' = Some (received data c)"
    using assms(2) by (simp add: st'_def the_connection_on)
  show "buffer_ok (received data c)" "pending (received data c) = pending c @ data"
    using received_pending [OF assms(3,4)] by simp_all
qed

lemma do_read_room:
  assumes "buffer_ok c"
  defines "c' \<equiv> do_read (compact_buffer_if_needed c)"
  shows "buffer_ok c' \<and> pending c' = pending c \<and> c_reading c'"
    "c_id c' = c_id c" "home c' = home c" "c_metrics c' = c_metrics c" "wq c' = wq c"
  using assms(1) by (simp_all add: c'_def)
    (simp_all add: do_read_def compact_buffer_if_needed_def compact_buffer_def home_def wq_def)

lemma on_read_serves_helper:
  assumes "request_codes_ok E" "state_ok st" "the_connection k i st = Some c" "buffer_ok c"
    and "length data \<le> room c"
  shows "on_read E clock k i (Some data) st =
    bind_res (serve_all E clock 0 k i (fst (frames E (pending c @ data)))
        (on_connection k i (received data) st)) (\<lambda>st'.
      bind_res (get_message_size E (snd (frames E (pending c @ data)))) (\<lambda>_.
        Inr (on_connection k i (do_read \<circ> compact_buffer_if_needed) st')))"
proof -
  note r = received_state [OF assms(2-5)]
  note loop = process_loop_serves [OF assms(1) r(1,2,3), of "Suc (length (pending c @ data))" clock 0, unfolded r(4)]
  have "bind_res (bind_res x (\<lambda>s. bind_res y (\<lambda>_. Inr s))) f = bind_res x (\<lambda>s. bind_res y (\<lambda>_. f s))"
    for x :: "'a state res" and y :: "nat res" and f :: "'a state \<Rightarrow> 'a state res"
    by (cases x; cases y) simp_all
  then show ?thesis
    using loop r(2,4) by (simp add: on_read_def try_process_next_def del: process_loop.simps)
qed

lemma on_read_frame:
  assumes "request_codes_ok E" "state_ok st" "the_connection k i st = Some c" "buffer_ok c"
    and "length data \<le> room c" "on_read E clock k i (Some data) st = Inr st'"
  shows "state_ok st'" "live_ids st' = live_ids st"
    "\<exists>c'. the_connection k i st' = Some c' \<and> buffer_ok c' \<and> c_reading c' \<and>
       pending c' = snd (frames E (pending c @ data)) \<and> wq c' = wq c"
    "(k', j) \<noteq> (k, i) \<Longrightarrow> rx_of k' j st' = rx_of k' j st"
proof -
  let ?fs = "frames E (pending c @ data)" and ?st0 = "on_connection k i (received data) st"
  let ?g = "do_read \<circ> compact_buffer_if_needed"
  note r = received_state [OF assms(2-5)]
  obtain st1 where st1: "serve_all E clock 0 k i (fst ?fs) ?st0 = Inr st1" "st' = on_connection k i ?g st1"
    using assms(6) on_read_serves_helper [OF assms(1-5), of clock] by (auto simp: res_simps)
  have cc: "concat (fst ?fs) @ snd ?fs = pending (received data c)" using r(4) frames_concat by simp
  note frame = serve_all_frame [OF assms(1) r(1-3) cc st1(1)]
  from frame(3) obtain c1 where c1: "the_connection k i st1 = Some c1" "buffer_ok c1" "pending c1 = snd ?fs"
    "wq c1 = wq (received data c)" by blast
  have wq: "wq (received data c) = wq c" by (simp add: wq_def received_def Let_def)
  note d = do_read_room [OF c1(2)]
  have ok1: "connections_ok st1" using frame(1) by (simp add: state_ok_def)
  have "length (cm_commands (c_metrics c1)) = 32"
    using connections_okD(4) [OF ok1] c1(1) the_connection_Some [OF ok1] by blast
  then show "state_ok st'"
    unfolding st1(2) using d by (intro state_ok_on_connection [OF frame(1) c1(1)]) simp_all
  show "live_ids st' = live_ids st" using frame(2) by (simp add: st1(2))
  show "\<exists>c'. the_connection k i st' = Some c' \<and> buffer_ok c' \<and> c_reading c' \<and> pending c' = snd ?fs \<and>
      wq c' = wq c"
    using d(1,5) c1 wq by (simp add: st1(2) the_connection_on)
  show "rx_of k' j st' = rx_of k' j st" if "(k', j) \<noteq> (k, i)"
  proof -
    have "rx_of k' j st' = rx_of k' j st1" using that by (auto simp: st1(2) rx_of_on)
    also have "\<dots> = rx_of k' j ?st0" using frame(4) that by blast
    also have "\<dots> = rx_of k' j st" using that by (auto simp: rx_of_on)
    finally show ?thesis .
  qed
qed

text \<open>C29: Reading from the socket serves exactly the requests framed by the bytes buffered and received,
  one by one and in order, keeps the bytes of an incomplete request for the next read, and leaves the
  buffers and queues of every other connection alone. The invariant of the state is kept.\<close>

theorem on_read_serves:
  assumes "request_codes_ok E" "state_ok st" "the_connection k i st = Some c" "buffer_ok c"
    and "length data \<le> room c"
  shows "on_read E clock k i (Some data) st =
      bind_res (serve_all E clock 0 k i (fst (frames E (pending c @ data)))
        (on_connection k i (received data) st)) (\<lambda>st'.
      bind_res (get_message_size E (snd (frames E (pending c @ data)))) (\<lambda>_.
        Inr (on_connection k i (do_read \<circ> compact_buffer_if_needed) st'))) \<and>
    (\<forall>st'. on_read E clock k i (Some data) st = Inr st' \<longrightarrow>
      state_ok st' \<and> live_ids st' = live_ids st \<and>
      (\<exists>c'. the_connection k i st' = Some c' \<and> buffer_ok c' \<and> c_reading c' \<and>
         pending c' = snd (frames E (pending c @ data)) \<and> wq c' = wq c) \<and>
      (\<forall>k' j. (k', j) \<noteq> (k, i) \<longrightarrow> rx_of k' j st' = rx_of k' j st))"
  using on_read_serves_helper [OF assms] on_read_frame [OF assms] by blast

lemma call_errors:
  assumes "request_codes_ok E" "parsers_ok E" "state_ok st" "unwritten m"
    and "call E now ty view i (st, m) = Inl e"
  shows "e = Bad_request \<or> e = Out_of_bounds"
proof -
  have "case dispatch (Suc (length view)) E now ty view i (st, m) of
      Inl e \<Rightarrow> e \<in> {Bad_request, Out_of_bounds} | Inr r \<Rightarrow> answer E m r"
    using dispatch_answers [OF assms(1,2), of "Suc (length view)"] assms(3,4)
    unfolding answers_within_def by blast
  then show ?thesis using assms(5) by (simp add: call_def)
qed

lemma mark_command_error: "mark_command ty ms = Inl e \<Longrightarrow> e = Out_of_bounds"
  by (auto simp: mark_command_def split: if_splits)

lemma bind_Inl: "bind_res x f = Inl e \<longleftrightarrow> x = Inl e \<or> (\<exists>y. x = Inr y \<and> f y = Inl e)"
  by (cases x) auto

lemma serve_request_errors:
  assumes "request_codes_ok E" "parsers_ok E" "state_ok st" "the_connection k i st = Some c"
    and "serve_request E now k i v st = Inl e"
  shows "e = Bad_request \<or> e = Out_of_bounds"
proof (cases rule: serve_request_cases [OF assms(3,4), of v E now])
  case (2 st2)
  have "call E now (hd v) v i (st2, new_message) = Inl e"
    using assms(5) unfolding 2(1) bind_Inl by auto
  from call_errors [OF assms(1,2) 2(2) unwritten_new this] show ?thesis .
qed (use assms(5) in simp)

lemma serve_all_errors:
  assumes "request_codes_ok E" "parsers_ok E" "state_ok st" "the_connection k i st = Some c" "buffer_ok c"
    and "concat vs @ rest = pending c" "serve_all E clock t k i vs st = Inl e"
  shows "e = Bad_request \<or> e = Out_of_bounds"
  using assms(3-)
proof (induction vs arbitrary: st c t)
  case (Cons v vs)
  show ?case
  proof (cases "serve_request E (clock t) k i v st")
    case (Inl e')
    then show ?thesis
      using Cons.prems(5) serve_request_errors [OF assms(1,2) Cons.prems(1,2)] by simp
  next
    case (Inr st1)
    have v: "take (length v) (pending c) = v" "length v \<le> length (pending c)"
      "drop (length v) (pending c) = concat vs @ rest"
      using Cons.prems(4) [symmetric] by simp_all
    obtain c1 where c1: "the_connection k i st1 = Some c1" "buffer_ok c1"
      "pending c1 = drop (length v) (pending c)" "state_ok st1"
      using serve_front [OF assms(1) Cons.prems(1-3) v(2)] Inr v(1) by metis
    have "serve_all E clock (Suc t) k i vs st1 = Inl e" using Cons.prems(5) Inr by simp
    from Cons.IH [OF c1(4,1,2) _ this] show ?thesis using v(3) c1(3) by simp
  qed
qed simp

text \<open>C32: The loop over the buffered requests ends. Reading from the socket either returns, or stops at a
  request that its parser refuses, or reads outside an array; the last two are not caught by the code.\<close>

theorem on_read_ends:
  assumes "request_codes_ok E" "layout_ok E" "parsers_ok E" "state_ok st" "the_connection k i st = Some c"
    and "buffer_ok c" "length data \<le> room c"
  shows "(\<exists>st'. on_read E clock k i (Some data) st = Inr st') \<or>
    on_read E clock k i (Some data) st \<in> {Inl Bad_request, Inl Out_of_bounds}"
proof (cases "on_read E clock k i (Some data) st")
  case (Inl e)
  let ?fs = "frames E (pending c @ data)"
  note r = received_state [OF assms(4-7)]
  have cc: "concat (fst ?fs) @ snd ?fs = pending (received data c)" using r(4) frames_concat by simp
  have "get_message_size E b = Inl e' \<Longrightarrow> e' = Out_of_bounds" for b e'
    by (auto simp: message_size_cases [OF assms(1,2)] split: if_splits option.splits)
  then have "e = Bad_request \<or> e = Out_of_bounds"
    using Inl on_read_serves_helper [OF assms(1,4-7), of clock]
      serve_all_errors [OF assms(1,3) r(1-3) cc, of clock 0 e]
    by (auto simp: bind_Inl)
  then show ?thesis using Inl by blast
qed blast


section \<open>The write queue\<close>

text \<open>The answers not yet written, oldest first; \<open>queue_ok\<close>: the front of the queue is being written.\<close>

definition outgoing :: "connection \<Rightarrow> message list" where
  "outgoing c = c_pending_writes c @ c_posted c"

definition queue_ok :: "connection \<Rightarrow> bool" where
  "queue_ok c \<longleftrightarrow> length (c_pending_writes c) \<le> pending_capacity \<and>
     c_writing c = (case c_pending_writes c of [] \<Rightarrow> None | m # _ \<Rightarrow> Some m)"

text \<open>What happens to the queue: a message is sent to the connection, the executor runs the next
  \<open>on_send\<close>, the outstanding write completes without error. The messages written are collected.\<close>

datatype queue_event = Send message | Run_posted | Written nat

fun queue_step :: "queue_event \<Rightarrow> connection \<times> message list \<Rightarrow> connection \<times> message list" where
  "queue_step (Send m) (c, w) = (send m c, w)"
| "queue_step Run_posted (c, w) = (run_posted c, w)"
| "queue_step (Written n) (c, w) =
     (case c_writing c of None \<Rightarrow> (c, w) | Some m \<Rightarrow> (on_write False n c, w @ [m]))"

definition queue_run :: "queue_event list \<Rightarrow> connection \<Rightarrow> connection \<times> message list" where
  "queue_run es c = fold queue_step es (c, [])"

fun sent :: "queue_event list \<Rightarrow> message list" where
  "sent [] = []"
| "sent (Send m # es) = m # sent es"
| "sent (e # es) = sent es"

lemma sent_append [simp]: "sent (es @ es') = sent es @ sent es'"
  by (induction es rule: sent.induct) simp_all

lemma queue_run_snoc [simp]: "queue_run (es @ [e]) c = queue_step e (queue_run es c)"
  by (simp add: queue_run_def)

lemma run_posted_queue:
  assumes "queue_ok c" "length (outgoing c) \<le> pending_capacity"
  shows "queue_ok (run_posted c)" "outgoing (run_posted c) = outgoing c"
proof -
  have "queue_ok (run_posted c) \<and> outgoing (run_posted c) = outgoing c"
  proof (cases "c_posted c")
    case (Cons m ms)
    then have "length (c_pending_writes c) < pending_capacity" using assms(2) by (simp add: outgoing_def)
    then show ?thesis
      using Cons assms(1) cb.push_below [of "c_pending_writes c" pending_capacity m]
      by (cases "c_pending_writes c")
        (auto simp: run_posted_def on_send_def write_next_def queue_ok_def outgoing_def Let_def)
  qed (use assms(1) in \<open>simp add: run_posted_def\<close>)
  then show "queue_ok (run_posted c)" "outgoing (run_posted c) = outgoing c" by blast+
qed

lemma on_write_queue:
  assumes "queue_ok c" "c_writing c = Some m"
  shows "queue_ok (on_write False n c)" "outgoing c = m # outgoing (on_write False n c)"
  using assms by (auto simp: queue_ok_def on_write_def write_next_def outgoing_def Let_def split: list.splits)

lemma send_queue [simp]: "queue_ok (send m c) = queue_ok c" "outgoing (send m c) = outgoing c @ [m]"
  by (simp_all add: queue_ok_def outgoing_def send_def)

lemma queue_run_order:
  assumes "queue_ok c"
    and "\<And>n. n \<le> length es \<Longrightarrow> length (outgoing (fst (queue_run (take n es) c))) \<le> pending_capacity"
  shows "queue_ok (fst (queue_run es c)) \<and>
    snd (queue_run es c) @ outgoing (fst (queue_run es c)) = outgoing c @ sent es"
  using assms(2)
proof (induction es rule: rev_induct)
  case Nil
  then show ?case using assms(1) by (simp add: queue_run_def)
next
  case (snoc e es)
  obtain d w where d: "queue_run es c = (d, w)" by (cases "queue_run es c")
  have "length (outgoing (fst (queue_run (take n es) c))) \<le> pending_capacity" if "n \<le> length es" for n
    using snoc.prems [of n] that by simp
  from snoc.IH [OF this] have IH: "queue_ok d" "w @ outgoing d = outgoing c @ sent es"
    by (simp_all add: d)
  have "length (outgoing d) \<le> pending_capacity" using snoc.prems [of "length es"] by (simp add: d)
  note run = run_posted_queue [OF IH(1) this]
  show ?case
  proof (cases e)
    case (Written n)
    then show ?thesis
      using IH on_write_queue [OF IH(1)] by (cases "c_writing d") (simp_all add: d)
  qed (use IH run in \<open>simp_all add: d flip: append_assoc\<close>)
qed

text \<open>C34: Answers are written in the order in which they were sent, none twice and none skipped, as long
  as no more than 1024 of them are waiting: what has been written followed by what is still waiting is
  what was sent, and the write in progress is that of the oldest answer waiting.\<close>

theorem writes_in_order:
  assumes "queue_ok c"
    and "\<And>n. n \<le> length es \<Longrightarrow> length (outgoing (fst (queue_run (take n es) c))) \<le> pending_capacity"
  shows "queue_ok (fst (queue_run es c)) \<and>
    snd (queue_run es c) @ outgoing (fst (queue_run es c)) = outgoing c @ sent es"
  using queue_run_order [OF assms] .

lemma queue_drain:
  "queue_ok c \<Longrightarrow> c_posted c = [] \<Longrightarrow>
     fold queue_step (replicate (length (c_pending_writes c)) (Written n)) (c, w) =
       (c', w') \<Longrightarrow> w' = w @ c_pending_writes c \<and> outgoing c' = []"
proof (induction "c_pending_writes c" arbitrary: c w)
  case Nil
  then show ?case using Nil.hyps [symmetric] by (auto simp: outgoing_def)
next
  case (Cons m ms)
  let ?d = "on_write False n c"
  have wr: "c_writing c = Some m" using Cons.prems(1) Cons.hyps(2) [symmetric] by (simp add: queue_ok_def)
  note ow = on_write_queue [OF Cons.prems(1) wr, of n]
  have "c_posted ?d = []" using Cons.prems(2)
    by (simp add: on_write_def write_next_def Let_def flip: Cons.hyps(2) split: list.split)
  moreover have "c_pending_writes ?d = ms"
    using ow(2) Cons.prems(2) calculation Cons.hyps(2) [symmetric] by (simp add: outgoing_def)
  moreover have "fold queue_step (replicate (length ms) (Written n)) (?d, w @ [m]) = (c', w')"
    using Cons.prems(3) wr by (simp flip: Cons.hyps(2))
  ultimately show ?case using Cons.hyps(1) [of ?d "w @ [m]"] ow(1) Cons.hyps(2) by simp
qed

lemma posted_drain:
  assumes "queue_ok c" "length (outgoing c) \<le> pending_capacity"
  defines "d \<equiv> (run_posted ^^ length (c_posted c)) c"
  shows "queue_ok d \<and> outgoing d = outgoing c \<and> c_posted d = []"
proof -
  have "queue_ok ((run_posted ^^ n) c) \<and> outgoing ((run_posted ^^ n) c) = outgoing c \<and>
      length (c_posted ((run_posted ^^ n) c)) = length (c_posted c) - n" for n
  proof (induction n)
    case (Suc n)
    let ?d = "(run_posted ^^ n) c"
    have "c_posted (run_posted ?d) = tl (c_posted ?d)"
      by (cases "c_posted ?d") (auto simp: run_posted_def on_send_def write_next_def Let_def split: list.split)
    then show ?case using Suc assms(2) run_posted_queue [of ?d] by simp
  qed (use assms(1) in simp)
  from this [of "length (c_posted c)"] show ?thesis by (simp add: d_def)
qed

lemma fold_run_posted: "fold queue_step (replicate n Run_posted) (c, w) = ((run_posted ^^ n) c, w)"
  by (induction n arbitrary: c) (simp_all add: funpow_swap1)

text \<open>C35: Every answer is written in the end. If the executor runs the handlers posted to it and the writes
  succeed, all the answers of a connection with at most 1024 of them waiting are written, in order, and the
  queue is empty.\<close>

theorem queue_drains:
  assumes "queue_ok c" "length (outgoing c) \<le> pending_capacity"
  shows "snd (queue_run (replicate (length (c_posted c)) Run_posted @
        replicate (length (outgoing c)) (Written n)) c) = outgoing c \<and>
    outgoing (fst (queue_run (replicate (length (c_posted c)) Run_posted @
        replicate (length (outgoing c)) (Written n)) c)) = []"
proof -
  let ?d = "(run_posted ^^ length (c_posted c)) c"
  note d = posted_drain [OF assms]
  have "outgoing ?d = c_pending_writes ?d @ c_posted ?d" by (simp add: outgoing_def)
  then have "outgoing c = c_pending_writes ?d" using d by simp
  moreover obtain c' w' where
    "fold queue_step (replicate (length (c_pending_writes ?d)) (Written n)) (?d, []) = (c', w')"
    by (metis surj_pair)
  ultimately show ?thesis
    using queue_drain [of ?d n "[]" c' w'] d
    unfolding queue_run_def fold_append comp_apply fold_run_posted by simp
qed

text \<open>The queue loses an answer when it overflows. With 1024 answers waiting, one more overwrites the
  answer that is being written; when that write completes the code removes the front of the queue, which
  is the next answer: it is never written, and the write started is that of the one after it.\<close>

theorem overflow_loses_answer:
  assumes "c_pending_writes c = m0 # m1 # m2 # ms" "length (c_pending_writes c) = pending_capacity"
    and "c_writing c = Some m0" "c_posted c = [x]"
  shows "c_writing (run_posted c) = Some m0 \<and>
    c_writing (on_write False n (run_posted c)) = Some m2 \<and>
    outgoing (on_write False n (run_posted c)) = m2 # ms @ [x]"
  using assms cb.push_full [of "c_pending_writes c" pending_capacity x]
  by (simp add: run_posted_def on_send_def on_write_def write_next_def outgoing_def Let_def pending_capacity_def)

section \<open>Witnesses\<close>

definition note_message :: "byte \<Rightarrow> message" where
  "note_message b = new_message\<lparr>write_buffer := [b]\<rparr>"

lemma client_buffer_ok: "buffer_ok (client i)"
  by (simp add: buffer_ok_def client_def make_connection_def)

lemma client_queue_ok: "queue_ok (client i)" "outgoing (client i) = []"
  by (simp_all add: queue_ok_def outgoing_def client_def make_connection_def)

lemma client_pending: "pending (client i) = []" "room (client i) = 8096"
  by (simp_all add: pending_def room_def client_def make_connection_def max_length_def)

lemma two_clients_connection: "the_connection Tcp 1 two_clients = Some (client 1)"
proof -
  have "connections_ok two_clients" using two_clients_ok by (simp add: state_ok_def)
  moreover have "(1, client 1) \<in> set (st_connections two_clients Tcp)"
    by (simp add: two_clients_def make_state_def)
  ultimately show ?thesis by (simp add: the_connection_Some)
qed

theorem do_read_has_room_witness:
  "pending (do_read (compact_buffer_if_needed (client 1))) = [] \<and>
   room (do_read (compact_buffer_if_needed (client 1))) \<noteq> 0"
  using do_read_has_room [OF client_buffer_ok, of 1] by (simp add: client_pending max_length_def)

theorem on_read_serves_witness:
  "on_read (sample_protocol :: 16 protocol) (\<lambda>_. 9) Tcp 1 (Some [16, 2, 1]) two_clients =
    bind_res (serve_all sample_protocol (\<lambda>_. 9) 0 Tcp 1 (fst (frames (sample_protocol :: 16 protocol) [16, 2, 1]))
      (on_connection Tcp 1 (received [16, 2, 1]) two_clients)) (\<lambda>st'.
    bind_res (get_message_size (sample_protocol :: 16 protocol) (snd (frames (sample_protocol :: 16 protocol) [16, 2, 1])))
      (\<lambda>_. Inr (on_connection Tcp 1 (do_read \<circ> compact_buffer_if_needed) st')))"
  using on_read_serves [OF sample_request_codes_ok two_clients_ok two_clients_connection client_buffer_ok,
      of "[16, 2, 1]"] by (simp add: client_pending)

theorem on_read_ends_witness:
  "(\<exists>st'. on_read (sample_protocol :: 16 protocol) (\<lambda>_. 9) Tcp 1 (Some [16, 2, 1]) two_clients = Inr st') \<or>
    on_read (sample_protocol :: 16 protocol) (\<lambda>_. 9) Tcp 1 (Some [16, 2, 1]) two_clients
      \<in> {Inl Bad_request, Inl Out_of_bounds}"
  using on_read_ends [OF sample_request_codes_ok sample_layout_ok sample_parsers_ok two_clients_ok
      two_clients_connection client_buffer_ok, of "[16, 2, 1]"] by (simp add: client_pending)


theorem writes_in_order_witness:
  "snd (queue_run [Send (note_message 1), Run_posted, Send (note_message 2), Written 1] (client 1)) =
     [note_message 1]"
proof -
  let ?es = "[Send (note_message 1), Run_posted, Send (note_message 2), Written 1]"
  have "length (outgoing (fst (queue_run (take n ?es) (client 1)))) \<le> pending_capacity" if "n \<le> length ?es" for n
  proof -
    from that consider "n = 0" | "n = 1" | "n = 2" | "n = 3" | "n = 4" by fastforce
    then show ?thesis
      by cases (simp_all add: queue_run_def outgoing_def send_def run_posted_def on_send_def write_next_def
          on_write_def client_def make_connection_def push_back_def pending_capacity_def Let_def)
  qed
  from writes_in_order [OF client_queue_ok(1), of ?es 1] this show ?thesis
    by (simp add: queue_run_def outgoing_def send_def run_posted_def on_send_def write_next_def
          on_write_def client_def make_connection_def push_back_def pending_capacity_def Let_def)
qed

theorem queue_drains_witness:
  "snd (queue_run [Run_posted, Written 0] (send (note_message 1) (client 1))) = [note_message 1]"
proof -
  have "c_posted (send (note_message 1) (client 1)) = [note_message 1]" by (simp add: send_def)
  moreover have "outgoing (send (note_message 1) (client 1)) = [note_message 1]" by (simp add: client_queue_ok)
  ultimately show ?thesis
    using queue_drains [of "send (note_message 1) (client 1)" 0]
    by (simp add: client_queue_ok pending_capacity_def del: queue_run_snoc)
qed

theorem overflow_loses_answer_witness:
  "outgoing (on_write False 0 (run_posted ((client 1)
     \<lparr>c_pending_writes := note_message 1 # note_message 2 # note_message 3 # replicate 1021 new_message,
      c_writing := Some (note_message 1), c_posted := [note_message 4]\<rparr>))) =
    note_message 3 # replicate 1021 new_message @ [note_message 4]"
  using overflow_loses_answer [of "(client 1)
     \<lparr>c_pending_writes := note_message 1 # note_message 2 # note_message 3 # replicate 1021 new_message,
      c_writing := Some (note_message 1), c_posted := [note_message 4]\<rparr>"
      "note_message 1" "note_message 2" "note_message 3" "replicate 1021 new_message" "note_message 4" 0]
  by (simp add: pending_capacity_def)

end
