(* ===== verification/Garbage_Collector.thy ===== *)
theory Garbage_Collector
  imports Find_Create
begin

text \<open>
  \<open>garbage_collector_service.cpp\<close>: marking the entries past their expiration point, erasing the
  marked ones after ten seconds of grace, and scheduling the next collection.
\<close>

definition grace_ns :: u64 where "grace_ns = 10000000000"

text \<open>\<open>std::numeric_limits<std::uint64_t>::max()\<close>: nothing to wait for.\<close>

definition no_expiration :: u64 where "no_expiration = - 1"

section \<open>One collection\<close>

text \<open>The first loop: the keys to expire, the keys to erase, the earliest expiration still ahead.\<close>

fun gc_scan ::
  "u64 \<Rightarrow> 'v::len storage \<Rightarrow> bytes list \<times> bytes list \<times> u64 \<Rightarrow> bytes list \<times> bytes list \<times> u64" where
  "gc_scan now [] acc = acc"
| "gc_scan now ((_, item) # s) (to_expire, to_erase, next_expiration) =
     (let expires_ns = e_expires_at (w_entry item)
      in if w_expired item
         then gc_scan now s (to_expire,
           if grace_ns < now - expires_ns then to_erase @ [w_key item] else to_erase, next_expiration)
         else if expires_ns \<le> now
         then gc_scan now s (to_expire @ [w_key item], to_erase, next_expiration)
         else gc_scan now s (to_expire, to_erase, min next_expiration expires_ns))"

definition mark_expired :: "'v::len entry_wrapper \<Rightarrow> 'v entry_wrapper" where
  "mark_expired w = w\<lparr>w_expired := True\<rparr>"

definition gc_expire :: "bytes list \<Rightarrow> 'v::len storage \<Rightarrow> 'v storage" where
  "gc_expire = fold (\<lambda>k s. case storage_find k s of
       Some (n, w) \<Rightarrow> if \<not> w_expired w then storage_modify n mark_expired s else s
     | None \<Rightarrow> s)"

definition gc_erase :: "bytes list \<Rightarrow> 'v::len storage \<Rightarrow> 'v storage" where
  "gc_erase = fold (\<lambda>k s. case storage_find k s of
       Some (n, w) \<Rightarrow> if w_expired w then storage_erase n s else s
     | None \<Rightarrow> s)"

definition candidate :: "'v::len entry_wrapper \<Rightarrow> u64" where
  "candidate w = (if w_expired w then e_expires_at (w_entry w) + grace_ns else e_expires_at (w_entry w))"

definition gc_next :: "u64 \<Rightarrow> 'v::len storage \<Rightarrow> u64" where
  "gc_next nx s = fold (\<lambda>(_, w) x. min x (candidate w)) s nx"

definition collect :: "u64 \<Rightarrow> 'v::len storage \<Rightarrow> 'v storage \<times> u64" where
  "collect now s =
     (let (to_expire, to_erase, nx) = gc_scan now s ([], [], no_expiration);
          s' = gc_erase to_erase (gc_expire to_expire s)
      in (s', gc_next nx s'))"

section \<open>run and schedule_timer\<close>

text \<open>
  The two functions call each other. \<open>clock t\<close> is the value of the \<open>t\<close>-th reading of the system
  clock. \<open>run\<close> holds \<open>mutex_\<close> (a \<open>std::mutex\<close>, not recursive) until it returns, the call
  of \<open>schedule_timer\<close> included. \<open>expires_after\<close> replaces the pending wait of the one timer.
\<close>

definition set_timer :: "u64 \<Rightarrow> u64 \<Rightarrow> 'v::len state \<Rightarrow> 'v state" where
  "set_timer now proposed st = st\<lparr>st_timer := Some (uint now + sint (proposed - now))\<rparr>"

function schedule_timer :: "(nat \<Rightarrow> u64) \<Rightarrow> nat \<Rightarrow> u64 \<Rightarrow> 'v::len state \<Rightarrow> 'v state res"
  and run :: "(nat \<Rightarrow> u64) \<Rightarrow> nat \<Rightarrow> 'v::len state \<Rightarrow> 'v state res" where
  "schedule_timer clock t proposed st =
     (if proposed \<le> clock t then run clock (Suc t) st
      else Inr (set_timer (clock t) proposed st))"
| "run clock t st =
     (if st_mutex st then Inl Relock
      else let (s', nx) = collect (clock t) (st_storage st);
               st' = st\<lparr>st_mutex := True, st_storage := s'\<rparr>
           in bind_res
                (if nx \<noteq> no_expiration then schedule_timer clock (Suc t) nx st' else Inr st')
                (\<lambda>st''. Inr (st''\<lparr>st_mutex := False\<rparr>)))"
  by pat_completeness auto

termination
  by (relation "measure (\<lambda>x. case x of
        Inl (_, _, _, st) \<Rightarrow> if st_mutex st then 1 else 3
      | Inr (_, _, st) \<Rightarrow> if st_mutex st then 0 else 2)") auto

declare schedule_timer.simps [simp del] run.simps [simp del]

section \<open>What a collection does\<close>

lemma mark_expired_fields [simp]:
  "w_key (mark_expired w) = w_key w" "w_entry (mark_expired w) = w_entry w"
  "w_expired (mark_expired w)" "w_metrics (mark_expired w) = w_metrics w"
  by (simp_all add: mark_expired_def)

definition overdue :: "u64 \<Rightarrow> 'v::len entry_wrapper \<Rightarrow> bool" where
  "overdue now w \<longleftrightarrow> \<not> w_expired w \<and> e_expires_at (w_entry w) \<le> now"

definition removable :: "u64 \<Rightarrow> 'v::len entry_wrapper \<Rightarrow> bool" where
  "removable now w \<longleftrightarrow> w_expired w \<and> grace_ns < now - e_expires_at (w_entry w)"

lemma gc_scan_Cons:
  "gc_scan now ((n, w) # s) (ex, er, nx) =
     gc_scan now s (if overdue now w then ex @ [w_key w] else ex,
       if removable now w then er @ [w_key w] else er,
       if \<not> w_expired w \<and> \<not> overdue now w then min nx (e_expires_at (w_entry w)) else nx)"
  by (simp add: overdue_def removable_def Let_def)

lemma gc_scan_eq:
  "gc_scan now s (ex, er, nx) =
     (ex @ map (w_key \<circ> snd) (filter (overdue now \<circ> snd) s),
      er @ map (w_key \<circ> snd) (filter (removable now \<circ> snd) s),
      fold (\<lambda>w x. min x (e_expires_at (w_entry w)))
        (filter (\<lambda>w. \<not> w_expired w \<and> \<not> overdue now w) (map snd s)) nx)"
proof (induction s arbitrary: ex er nx)
  case Nil
  show ?case by simp
next
  case (Cons x s)
  obtain n w where x: "x = (n, w)" by (cases x)
  show ?case unfolding x gc_scan_Cons Cons.IH by (simp add: comp_def)
qed

lemma storage_find_mem:
  assumes "storage_ok s" "storage_find k s = Some (n, w)" "(m, x) \<in> set s"
  shows "m = n \<longleftrightarrow> w_key x = k" and "w_key x = k \<Longrightarrow> x = w"
proof -
  note w = storage_find_SomeD [OF assms(2)]
  show "w_key x = k \<Longrightarrow> x = w" using storage_key_unique [OF assms(1,3), of n w] w by simp
  show "m = n \<longleftrightarrow> w_key x = k"
    using storage_key_unique [OF assms(1,3), of n w] storage_node_unique [OF assms(1), of n w x]
      assms(3) w by metis
qed

lemma modify_by_key:
  assumes "storage_ok s"
  shows "(case storage_find k s of Some (n, w) \<Rightarrow> if P w then storage_modify n f s else s | None \<Rightarrow> s) =
    map (\<lambda>(m, w). (m, if w_key w = k \<and> P w then f w else w)) s"
proof (cases "storage_find k s")
  case None
  then have "w_key w \<noteq> k" if "(m, w) \<in> set s" for m w
    using that by (force simp: storage_find_None_iff)
  then show ?thesis using None by (auto intro!: map_idI [symmetric])
next
  case (Some x)
  then obtain n w where x: "storage_find k s = Some (n, w)" by (cases x) auto
  have "(m, if m = n then f y else y) = (m, if w_key y = k \<and> P y then f y else y)"
    if "(m, y) \<in> set s" "P w" for m y
    using storage_find_mem [OF assms x that(1)] that(2) by auto
  moreover have "(m, y) = (m, if w_key y = k \<and> P y then f y else y)"
    if "(m, y) \<in> set s" "\<not> P w" for m y
    using storage_find_mem [OF assms x that(1)] that(2) by auto
  ultimately show ?thesis
    using x by (auto simp: storage_modify_def intro!: map_idI [symmetric])
qed

lemma erase_by_key:
  assumes "storage_ok s"
  shows "(case storage_find k s of Some (n, w) \<Rightarrow> if P w then storage_erase n s else s | None \<Rightarrow> s) =
    filter (\<lambda>(m, w). \<not> (w_key w = k \<and> P w)) s"
proof (cases "storage_find k s")
  case None
  then have "w_key w \<noteq> k" if "(m, w) \<in> set s" for m w
    using that by (force simp: storage_find_None_iff)
  then show ?thesis using None by (auto intro!: filter_True [symmetric])
next
  case (Some x)
  then obtain n w where x: "storage_find k s = Some (n, w)" by (cases x) auto
  show ?thesis
  proof (cases "P w")
    case True
    then show ?thesis
      using x storage_find_mem [OF assms x] by (auto simp: storage_erase_def intro!: filter_cong)
  next
    case False
    then show ?thesis
      using x storage_find_mem [OF assms x] by (auto intro!: filter_True [symmetric])
  qed
qed

text \<open>Marking and erasing by key lists, in one pass each.\<close>

lemma expire_ok:
  "storage_ok s \<Longrightarrow> storage_ok (map (\<lambda>(m, w). (m, if P w then mark_expired w else w)) s)"
  using storage_for_each_ok [of s "\<lambda>w. if P w then mark_expired w else w"]
  by (simp add: storage_for_each_def)

lemma gc_expire_eq:
  assumes "storage_ok s"
  shows "gc_expire ks s = map (\<lambda>(m, w). (m, if w_key w \<in> set ks then mark_expired w else w)) s"
  using assms
proof (induction ks arbitrary: s)
  case Nil
  then show ?case by (simp add: gc_expire_def)
next
  case (Cons k ks)
  let ?s = "map (\<lambda>(m, w). (m, if w_key w = k \<and> \<not> w_expired w then mark_expired w else w)) s"
  have "gc_expire (k # ks) s = gc_expire ks ?s"
    by (simp add: gc_expire_def modify_by_key [OF Cons.prems])
  also have "\<dots> = map (\<lambda>(m, w). (m, if w_key w \<in> set ks then mark_expired w else w)) ?s"
    by (rule Cons.IH) (rule expire_ok [OF Cons.prems])
  also have "\<dots> = map (\<lambda>(m, w). (m, if w_key w \<in> set (k # ks) then mark_expired w else w)) s"
    by (auto simp: mark_expired_def)
  finally show ?case .
qed

lemma gc_erase_eq:
  assumes "storage_ok s"
  shows "gc_erase ks s = filter (\<lambda>(m, w). \<not> (w_key w \<in> set ks \<and> w_expired w)) s"
  using assms
proof (induction ks arbitrary: s)
  case Nil
  then show ?case by (simp add: gc_erase_def split_def)
next
  case (Cons k ks)
  let ?s = "filter (\<lambda>(m, w). \<not> (w_key w = k \<and> w_expired w)) s"
  have ok: "storage_ok ?s"
    using Cons.prems by (simp add: storage_ok_def distinct_map_filter_key)
  have "gc_erase (k # ks) s = gc_erase ks ?s"
    by (simp add: gc_erase_def erase_by_key [OF Cons.prems])
  also have "\<dots> = filter (\<lambda>(m, w). \<not> (w_key w \<in> set ks \<and> w_expired w)) ?s"
    by (rule Cons.IH [OF ok])
  also have "\<dots> = filter (\<lambda>(m, w). \<not> (w_key w \<in> set (k # ks) \<and> w_expired w)) s"
    by (auto intro!: filter_cong)
  finally show ?case .
qed

section \<open>Specification\<close>

text \<open>
  A collection at instant \<open>now\<close> seen from outside: an entry past its expiration point disappears
  from view, a hidden one whose grace is over frees its key, the others stay.
\<close>

fun collect_spec :: "u64 \<Rightarrow> 'v::len entry slot \<Rightarrow> 'v entry slot" where
  "collect_spec now Free = Free"
| "collect_spec now (Live e) = (if e_expires_at e \<le> now then Lingering e else Live e)"
| "collect_spec now (Lingering e) = (if grace_ns < now - e_expires_at e then Free else Lingering e)"

definition swept :: "u64 \<Rightarrow> 'v::len storage \<Rightarrow> 'v storage" where
  "swept now s = map (\<lambda>(n, w). (n, if overdue now w then mark_expired w else w))
     (filter (\<lambda>(n, w). \<not> removable now w) s)"

lemma in_scan_keys:
  assumes "storage_ok s" "(n, w) \<in> set s"
  shows "w_key w \<in> set (map (w_key \<circ> snd) (filter (P \<circ> snd) s)) \<longleftrightarrow> P w"
proof
  assume "w_key w \<in> set (map (w_key \<circ> snd) (filter (P \<circ> snd) s))"
  then obtain m x where "(m, x) \<in> set s" "P x" "w_key x = w_key w" by auto
  then show "P w" using storage_key_unique [OF assms(1) _ assms(2)] by blast
qed (use assms in force)

lemma collect_swept:
  assumes "storage_ok s"
  shows "fst (collect now s) = swept now s"
proof -
  let ?ex = "map (w_key \<circ> snd) (filter (overdue now \<circ> snd) s)"
  let ?er = "map (w_key \<circ> snd) (filter (removable now \<circ> snd) s)"
  let ?m = "\<lambda>(n, w). (n :: nat, if w_key w \<in> set ?ex then mark_expired w else w)"
  have ok: "storage_ok (map ?m s)" by (rule expire_ok [OF assms])
  have "fst (collect now s) = gc_erase ?er (gc_expire ?ex s)"
    by (simp add: collect_def gc_scan_eq Let_def)
  also have "\<dots> = filter (\<lambda>(m, w). \<not> (w_key w \<in> set ?er \<and> w_expired w)) (map ?m s)"
    by (simp only: gc_expire_eq [OF assms] gc_erase_eq [OF ok])
  also have "\<dots> = map ?m (filter ((\<lambda>(m, w). \<not> (w_key w \<in> set ?er \<and> w_expired w)) \<circ> ?m) s)"
    by (rule filter_map)
  also have "\<dots> = swept now s"
    unfolding swept_def
  proof (rule map_cong)
    show "filter ((\<lambda>(m, w). \<not> (w_key w \<in> set ?er \<and> w_expired w)) \<circ> ?m) s =
        filter (\<lambda>(n, w). \<not> removable now w) s"
    proof (rule filter_cong)
      fix x assume x: "x \<in> set s"
      obtain n w where nw: "x = (n, w)" by (cases x)
      have r: "removable now w \<Longrightarrow> w_expired w" by (simp add: removable_def)
      show "((\<lambda>(m, w). \<not> (w_key w \<in> set ?er \<and> w_expired w)) \<circ> ?m) x =
          (case x of (n, w) \<Rightarrow> \<not> removable now w)"
        using in_scan_keys [OF assms, of n w "removable now"] x r
        by (auto simp: nw simp del: set_map set_filter)
    qed simp
    fix x assume "x \<in> set (filter (\<lambda>(n, w). \<not> removable now w) s)"
    then show "?m x = (case x of (n, w) \<Rightarrow> (n, if overdue now w then mark_expired w else w))"
      using in_scan_keys [OF assms, of "fst x" "snd x" "overdue now"]
      by (simp add: split_def del: set_map)
  qed
  finally show ?thesis .
qed

lemma swept_ok:
  assumes "storage_ok s"
  shows "storage_ok (swept now s)"
proof -
  have "storage_ok (filter (\<lambda>(n, w). \<not> removable now w) s)"
    using assms by (simp add: storage_ok_def distinct_map_filter_key)
  then show ?thesis unfolding swept_def by (rule expire_ok)
qed

lemma in_set_swept:
  "(n, x) \<in> set (swept now s) \<longleftrightarrow> (\<exists>w. (n, w) \<in> set s \<and> \<not> removable now w \<and>
     x = (if overdue now w then mark_expired w else w))"
  by (induction s) (auto simp: swept_def)

lemma slots_swept:
  assumes "storage_ok s"
  shows "slots (swept now s) k = collect_spec now (slots s k)"
proof (cases "storage_find k s")
  case None
  then have "w_key w \<noteq> k" if "(m, w) \<in> set s" for m w
    using that by (force simp: storage_find_None_iff)
  then have "w_key w \<noteq> k" if "(m, w) \<in> set (swept now s)" for m w
    using that by (force simp: in_set_swept split: if_splits)
  then have "storage_find k (swept now s) = None" by (force simp: storage_find_None_iff)
  then show ?thesis using None by (simp add: slots_def)
next
  case (Some x)
  then obtain n w where x: "storage_find k s = Some (n, w)" by (cases x) auto
  note w = storage_find_SomeD [OF x]
  show ?thesis
  proof (cases "removable now w")
    case True
    have "w_key y \<noteq> k" if "(m, y) \<in> set (swept now s)" for m y
    proof -
      obtain w' where w': "(m, w') \<in> set s" "\<not> removable now w'" "w_key y = w_key w'"
        using \<open>(m, y) \<in> set (swept now s)\<close> by (auto simp: in_set_swept)
      then show ?thesis using storage_key_unique [OF assms, of m w' n w] w True by auto
    qed
    then have "storage_find k (swept now s) = None" by (force simp: storage_find_None_iff)
    then show ?thesis using True x by (simp add: slots_def wrapper_slot_def removable_def)
  next
    case False
    let ?w = "if overdue now w then mark_expired w else w"
    have "(n, ?w) \<in> set (swept now s)" using False w by (auto simp: in_set_swept)
    then have "storage_find k (swept now s) = Some (n, ?w)"
      using w storage_find_eq_Some [OF swept_ok [OF assms]] by auto
    then show ?thesis
      using False x by (auto simp: slots_def wrapper_slot_def removable_def overdue_def)
  qed
qed

text \<open>The instant at which the collector next has something to do.\<close>

lemma gc_next_Min: "gc_next nx s = Min (insert nx (candidate ` snd ` set s))"
proof (induction s arbitrary: nx)
  case Nil
  show ?case by (simp add: gc_next_def)
next
  case (Cons x s)
  have "gc_next nx (x # s) = gc_next (min nx (candidate (snd x))) s"
    by (cases x) (simp add: gc_next_def)
  moreover have "gc_next (min nx (candidate (snd x))) [] = min nx (candidate (snd x))"
    by (simp add: gc_next_def)
  ultimately show ?case by (cases "s = []") (simp_all add: Cons.IH min.assoc)
qed

definition next_due :: "'v::len storage \<Rightarrow> u64" where
  "next_due s = Min (insert no_expiration (candidate ` snd ` set s))"

lemma le_no_expiration [simp]: "x \<le> no_expiration"
  by (simp add: no_expiration_def)

lemma fold_min_Min:
  "fold (\<lambda>w x. min x (f w)) ws (nx :: 'a::linorder) = Min (insert nx (f ` set ws))"
proof (induction ws arbitrary: nx)
  case (Cons w ws)
  then show ?case by (cases "ws = []") (simp_all add: min.assoc)
qed simp

lemma collect_next:
  assumes "storage_ok s"
  shows "snd (collect now s) = next_due (swept now s)"
proof -
  let ?live = "filter (\<lambda>w. \<not> w_expired w \<and> \<not> overdue now w) (map snd s)"
  let ?A = "(\<lambda>w. e_expires_at (w_entry w)) ` set ?live" and ?B = "candidate ` snd ` set (swept now s)"
  have "snd (collect now s) = gc_next (Min (insert no_expiration ?A)) (fst (collect now s))"
    by (simp add: collect_def gc_scan_eq Let_def fold_min_Min)
  also have "\<dots> = Min (insert (Min (insert no_expiration ?A)) ?B)"
    by (simp only: gc_next_Min collect_swept [OF assms])
  also have "\<dots> = Min (insert no_expiration (?A \<union> ?B))"
    by (cases "?A = {}"; cases "?B = {}") (simp_all add: Min_Un min.assoc del: set_filter)
  also have "?A \<union> ?B = ?B"
  proof -
    have "e_expires_at (w_entry w) \<in> ?B" if "(n, w) \<in> set s" "\<not> w_expired w" "\<not> overdue now w" for n w
    proof -
      have "(n, w) \<in> set (swept now s)" using that by (auto simp: in_set_swept removable_def)
      then show ?thesis using that(2) by (force simp: candidate_def)
    qed
    then show ?thesis by auto
  qed
  finally show ?thesis by (simp add: next_due_def)
qed

section \<open>run\<close>

lemma entries_ok_swept:
  assumes "entries_ok st"
  shows "entries_ok (on_storage (swept now) st)"
  using assms swept_ok [of "st_storage st" now] by (force simp: entries_ok_def in_set_swept)

text \<open>The two ways a collection ends.\<close>

lemma run_cases:
  fixes st :: "'v::len state" and clock :: "nat \<Rightarrow> u64" and t :: nat
  assumes "storage_ok (st_storage st)" "\<not> st_mutex st"
  defines "s \<equiv> swept (clock t) (st_storage st)"
  shows "run clock t st =
    (if next_due s = no_expiration then Inr (st\<lparr>st_storage := s\<rparr>)
     else if next_due s \<le> clock (Suc t) then Inl Relock
     else Inr (set_timer (clock (Suc t)) (next_due s) (st\<lparr>st_storage := s\<rparr>)))"
proof -
  have c: "collect (clock t) (st_storage st) = (s, next_due s)"
    using collect_swept [OF assms(1)] collect_next [OF assms(1)] by (simp add: s_def prod_eq_iff)
  have m: "st\<lparr>st_mutex := False\<rparr> = st" using assms(2) by simp
  let ?st = "st\<lparr>st_mutex := True, st_storage := s\<rparr>"
  have inner: "schedule_timer clock (Suc t) (next_due s) ?st =
      (if next_due s \<le> clock (Suc t) then Inl Relock
       else Inr (set_timer (clock (Suc t)) (next_due s) ?st))"
    by (simp add: schedule_timer.simps run.simps)
  have unlock: "st\<lparr>st_mutex := False, st_storage := s\<rparr> = st\<lparr>st_storage := s\<rparr>"
    by (subst (2) m [symmetric]) simp
  have timer: "(set_timer n d ?st)\<lparr>st_mutex := False\<rparr> = set_timer n d (st\<lparr>st_mutex := False, st_storage := s\<rparr>)"
    for n d by (simp add: set_timer_def)
  show ?thesis
    using assms(2) by (simp add: run.simps [of clock t st] c inner timer unlock)
qed

lemma run_effect:
  assumes "entries_ok st" "run clock t st = Inr st'"
  shows "(\<forall>k. slots (st_storage st') k = collect_spec (clock t) (slots (st_storage st) k)) \<and>
    entries_ok st' \<and> \<not> st_mutex st' \<and>
    st_timer st' = (if next_due (st_storage st') = no_expiration then st_timer st
      else Some (uint (clock (Suc t)) + sint (next_due (st_storage st') - clock (Suc t))))"
proof -
  have s: "storage_ok (st_storage st)" using assms(1) by (simp add: entries_ok_def)
  have m: "\<not> st_mutex st" using assms(2) by (simp add: run.simps [of clock t st] split: if_splits)
  have sw: "st_storage st' = swept (clock t) (st_storage st)" "st_next_node st' = st_next_node st"
    "st_mutex st' = st_mutex st"
    "st_timer st' = (if next_due (swept (clock t) (st_storage st)) = no_expiration then st_timer st
      else Some (uint (clock (Suc t)) + sint (next_due (swept (clock t) (st_storage st)) - clock (Suc t))))"
    using assms(2) by (auto simp: run_cases [OF s m] set_timer_def split: if_splits)
  have "entries_ok st'"
    using entries_ok_swept [OF assms(1), of "clock t"] sw(1,2) by (simp add: entries_ok_def)
  then show ?thesis using slots_swept [OF s] sw m by simp
qed

text \<open>C18: A collection that returns does what it promises: at the instant it read, every entry past
  its expiration point has disappeared from view, every hidden entry whose grace is over has freed
  its key, no other key changes, the container stays well formed and \<open>mutex_\<close> is released; and when
  some entry is left, the timer waits for the earliest instant at which there is work again.\<close>

theorem run_collects:
  assumes "entries_ok st" "run clock t st = Inr st'"
  shows "(\<forall>k. slots (st_storage st') k = collect_spec (clock t) (slots (st_storage st) k)) \<and>
    entries_ok st' \<and> \<not> st_mutex st' \<and>
    st_timer st' = (if next_due (st_storage st') = no_expiration then st_timer st
      else Some (uint (clock (Suc t)) + sint (next_due (st_storage st') - clock (Suc t))))"
  by (rule run_effect [OF assms])

text \<open>When a collection returns at all. With \<open>mutex_\<close> free it returns exactly when nothing is
  left to wait for, or the earliest instant at which there is work is still ahead at the second clock
  reading; otherwise \<open>schedule_timer\<close> calls \<open>run\<close> again, on the thread that holds
  \<open>mutex_\<close>, and the thread locks itself out.\<close>

theorem run_returns_iff:
  assumes "entries_ok st"
  shows "(case run clock t st of Inl e \<Rightarrow> e = Relock | Inr _ \<Rightarrow> True) \<and>
    ((\<exists>st'. run clock t st = Inr st') \<longleftrightarrow> \<not> st_mutex st \<and>
      (let d = next_due (swept (clock t) (st_storage st))
       in d = no_expiration \<or> clock (Suc t) < d))"
proof -
  have s: "storage_ok (st_storage st)" using assms(1) by (simp add: entries_ok_def)
  show ?thesis
  proof (cases "st_mutex st")
    case True
    then show ?thesis by (simp add: run.simps [of clock t st])
  qed (auto simp: run_cases [OF s] Let_def not_le)
qed

section \<open>Witnesses\<close>

lemma run_one_raw:
  "run (\<lambda>_. 2000) 0 (one_raw False 1000 :: 16 state) =
     Inr (set_timer 2000 (1000 + grace_ns) ((one_raw False 1000)
       \<lparr>st_storage := swept 2000 (st_storage (one_raw False 1000))\<rparr>))"
proof -
  let ?st = "one_raw False 1000 :: 16 state"
  have s: "storage_ok (st_storage ?st)" by (simp add: one_raw_def storage_ok_def)
  have "next_due (swept 2000 (st_storage ?st)) = 1000 + grace_ns"
    by (simp add: one_raw_def swept_def removable_def overdue_def next_due_def candidate_def
        grace_ns_def no_expiration_def)
  then show ?thesis
    using run_cases [OF s one_raw_ok(3), of "\<lambda>_. 2000" 0] by (simp add: grace_ns_def no_expiration_def)
qed

theorem run_collects_witness:
  "\<exists>st'. run (\<lambda>_. 2000) 0 (one_raw False 1000 :: 16 state) = Inr st' \<and>
     slots (st_storage st') [7] = Lingering \<lparr>e_type = Raw, e_counter = 0, e_buffer = [1, 2],
       e_ttl_type = Seconds, e_expires_at = 1000\<rparr>"
  using run_collects [OF one_raw_ok(1) run_one_raw] by (simp add: run_one_raw one_raw_ok(2))

theorem run_returns_iff_witness:
  "run (\<lambda>_. 10000002000) 0 (one_raw False 1000 :: 16 state) = Inl Relock"
proof -
  have "next_due (swept 10000002000 (st_storage (one_raw False 1000 :: 16 state))) = 10000001000"
    by (simp add: one_raw_def swept_def removable_def overdue_def next_due_def candidate_def
        grace_ns_def no_expiration_def)
  then show ?thesis
    using run_returns_iff [OF one_raw_ok(1), of "\<lambda>_. 10000002000" 0 False 1000, where ?'a = 16]
    by (auto simp: no_expiration_def split: sum.splits)
qed

end
