(* ===== verification/Lifetime.thy ===== *)
theory Lifetime
  imports Garbage_Collector Update
begin

text \<open>
  What creation, the strand and the garbage collector do together: the tasks that \<open>create_service\<close>
  and \<open>update_service\<close> hand to the strand, the timer, and the life of a key across them.
\<close>

section \<open>The strand and the timer\<close>

text \<open>The next function posted to the strand runs; it is a call of \<open>schedule_timer\<close>.\<close>

definition run_task :: "(nat \<Rightarrow> u64) \<Rightarrow> nat \<Rightarrow> 'v::len state \<Rightarrow> 'v state res" where
  "run_task clock t st =
     (case st_tasks st of
        [] \<Rightarrow> Inr st
      | proposed # ps \<Rightarrow> schedule_timer clock t proposed (st\<lparr>st_tasks := ps\<rparr>))"

text \<open>The pending wait of the timer completes without error: the handler calls \<open>run\<close>. A wait that
  \<open>expires_after\<close> has replaced completes with an error and does nothing.\<close>

definition timer_due :: "u64 \<Rightarrow> 'v::len state \<Rightarrow> bool" where
  "timer_due now st = (case st_timer st of None \<Rightarrow> False | Some d \<Rightarrow> d \<le> uint now)"

definition on_timer :: "(nat \<Rightarrow> u64) \<Rightarrow> nat \<Rightarrow> 'v::len state \<Rightarrow> 'v state res" where
  "on_timer clock t st = run clock t (st\<lparr>st_timer := None\<rparr>)"

lemma schedule_timer_ahead:
  "clock t < proposed \<Longrightarrow> schedule_timer clock t proposed st = Inr (set_timer (clock t) proposed st)"
  by (auto simp: schedule_timer.simps)

section \<open>SET on a key that waits to be erased\<close>

lemma set_lingering:
  assumes "entries_ok st" "slots (st_storage st) key = Lingering e" "e_type e \<noteq> Counter"
    and "get_expiration_point E now ttl_type ttl = Inr ex"
    and "create_use E now key value ttl_type ttl type False st = Inr (ok, st')"
  shows "ok" "slots (st_storage st') = (slots (st_storage st))(key := Lingering (rewritten value ttl_type ex e))"
    "entries_ok st'" "st_mutex st' = st_mutex st"
proof -
  have s: "storage_ok (st_storage st)" using assms(1) by (simp add: entries_ok_def)
  obtain n w where w: "storage_find key (st_storage st) = Some (n, w)" "w_expired w" "w_entry w = e"
    using assms(2) by (auto simp: slots_def wrapper_slot_def split: option.splits if_splits)
  let ?f = "set_again value ttl_type ex"
  have st': "ok" "st' = on_storage (storage_modify n ?f) st"
    using assms(3-5) w by (auto simp: create_use_def)
  then show "ok" "st_mutex st' = st_mutex st" by simp_all
  show "entries_ok st'" unfolding st'(2) by (rule entries_ok_modify [OF assms(1)]) simp
  have "wrapper_slot (?f w) = Lingering (rewritten value ttl_type ex e)"
    using w by (simp add: wrapper_slot_def set_again_def rewritten_def update_buffer_def)
  then show "slots (st_storage st') = (slots (st_storage st))(key := Lingering (rewritten value ttl_type ex e))"
    using slots_modify [OF s w(1), of ?f] st'(2) by simp
qed

lemma collect_frees_future:
  assumes "unat ex - unat now < 2 ^ 63" "now < ex"
  shows "grace_ns < now - ex"
proof -
  have u: "uint now = int (unat now)" "uint ex = int (unat ex)" by simp_all
  have "unat now < unat ex" using assms(2) by (simp add: word_less_nat_alt)
  moreover have "unat ex - unat now < 9223372036854775808" using assms(1) by simp
  ultimately have lt: "uint now < uint ex" "uint ex - uint now < 9223372036854775808"
    unfolding u by linarith+
  have "uint (now - ex) = (uint now - uint ex) mod 2 ^ 64"
    by (simp add: uint_word_ariths)
  also have "\<dots> = (uint now - uint ex + 2 ^ 64) mod 2 ^ 64" by simp
  also have "\<dots> = uint now - uint ex + 2 ^ 64"
    using lt by (intro mod_pos_pos_trivial) auto
  finally show ?thesis using lt by (simp add: word_less_def grace_ns_def)
qed



section \<open>A collection that comes too late\<close>

text \<open>
  Two keys, each with one request. \<open>[1]\<close> lives five seconds, \<open>[2]\<close> sixty; the second
  insertion replaces the timer, because the loop of \<open>create_service\<close> compares with the first
  element in hash order, which here is the new one.
\<close>

definition late_collection :: "16 state res" where
  "late_collection = (let E = sample_protocol :: 16 protocol in
     bind_res (create_use E 0 [1] [1] Seconds [5, 0] Raw False (make_state 0)) (\<lambda>(_, st).
     bind_res (run_task (\<lambda>_. 0) 0 st) (\<lambda>st.
     bind_res (create_use E 1000000000 [2] [2] Seconds [60, 0] Raw False st) (\<lambda>(_, st).
     run_task (\<lambda>_. 1000000000) 0 st))))"

definition raw_wrapper :: "byte \<Rightarrow> u64 \<Rightarrow> entry_metrics \<Rightarrow> 16 entry_wrapper" where
  "raw_wrapper k x m = \<lparr>w_key = [k], w_entry = \<lparr>e_type = Raw, e_counter = 0, e_buffer = [k],
     e_ttl_type = Seconds, e_expires_at = x\<rparr>, w_expired = False, w_metrics = m\<rparr>"

lemma late_collection_state:
  "\<exists>st m1 m2. late_collection = Inr st \<and>
     st_storage st = [(1, raw_wrapper 2 61000000000 m2), (0, raw_wrapper 1 5000000000 m1)] \<and>
     st_tasks st = [] \<and> st_timer st = Some 61000000000 \<and> \<not> st_mutex st"
proof -
  let ?E = "sample_protocol :: 16 protocol"
  have v: "le_to_word [60, 0] = (60 :: 16 word)" "le_to_word [5, 0] = (5 :: 16 word)"
    by (simp_all add: le_to_word_def)
  have ex: "get_expiration_point ?E 0 Seconds [5, 0] = Inr 5000000000"
    "get_expiration_point ?E 1000000000 Seconds [60, 0] = Inr 61000000000"
    using get_expiration_point_eq [of ?E "[5, 0]" 5 0 Seconds] v
      get_expiration_point_eq [of ?E "[60, 0]" 60 1000000000 Seconds] by (simp_all add: read_value_def)
  show ?thesis
    by (simp add: late_collection_def Let_def create_use_def ex emplace_entry_def make_wrapper_def
        make_entry_def storage_emplace_def storage_find_def storage_place_def make_state_def
        run_task_def schedule_timer_ahead set_timer_def raw_wrapper_def on_metrics_def)
qed

text \<open>The collector can lock itself out in ordinary use. With two keys of different lifetimes
  the timer that waited for the first is replaced by the wait for the second; when it fires, the first
  entry is so late that its grace is over too, \<open>schedule_timer\<close> finds work in the past, calls
  \<open>run\<close> while \<open>run\<close> holds \<open>mutex_\<close>, and the thread blocks for ever.\<close>

theorem late_collection_deadlocks:
  "case late_collection of
     Inl e \<Rightarrow> False
   | Inr st \<Rightarrow> timer_due 61000000000 st \<and> \<not> timer_due 60999999999 st \<and>
       on_timer (\<lambda>_. 61000000000) 0 st = Inl Relock"
proof -
  obtain st m1 m2 where st: "late_collection = Inr st" "\<not> st_mutex st"
    "st_storage st = [(1, raw_wrapper 2 61000000000 m2), (0, raw_wrapper 1 5000000000 m1)]"
    "st_timer st = Some 61000000000"
    using late_collection_state by blast
  have "next_due (swept 61000000000 (st_storage st)) = 15000000000"
    by (simp add: st(3) swept_def removable_def overdue_def raw_wrapper_def next_due_def
        candidate_def grace_ns_def no_expiration_def)
  then have "run (\<lambda>_. 61000000000) 0 (st\<lparr>st_timer := None\<rparr>) = Inl Relock"
    using st(2,3) run_cases [of "st\<lparr>st_timer := None\<rparr>" "\<lambda>_. 61000000000" 0]
    by (simp add: storage_ok_def raw_wrapper_def no_expiration_def)
  then show ?thesis by (simp add: st(1,4) timer_due_def on_timer_def)
qed

end
