(* ===== verification/Metrics_Collector.thy ===== *)
theory Metrics_Collector
  imports State Key_Value Sample_State
begin

text \<open>
  \<open>metrics_collector_service.cpp\<close>: the snapshot taken every minute, which turns the counts since
  the last one into per-minute figures and accumulates them.
\<close>

definition collect_entry_metrics :: "entry_metrics \<Rightarrow> entry_metrics" where
  "collect_entry_metrics m =
     m\<lparr>em_reads := 0, em_writes := 0,
       em_reads_per_minute := em_reads m, em_writes_per_minute := em_writes m,
       em_reads_accumulator := em_reads_accumulator m + em_reads m,
       em_writes_accumulator := em_writes_accumulator m + em_writes m\<rparr>"

text \<open>The loop over the storage skips the elements marked expired.\<close>

definition collect_wrapper_metrics :: "'v::len entry_wrapper \<Rightarrow> 'v entry_wrapper" where
  "collect_wrapper_metrics w =
     (if w_expired w then w else w\<lparr>w_metrics := collect_entry_metrics (w_metrics w)\<rparr>)"

definition compute_commands :: "connection \<Rightarrow> connection" where
  "compute_commands c = c\<lparr>c_metrics := (c_metrics c)
     \<lparr>cm_commands := map compute (cm_commands (c_metrics c))\<rparr>\<rparr>"

definition compute_connections :: "connection_map \<Rightarrow> 'v::len state \<Rightarrow> 'v state" where
  "compute_connections k st = st\<lparr>st_connections := (st_connections st)
     (k := map (\<lambda>(i, c). (i, compute_commands c)) (st_connections st k))\<rparr>"

definition compute_all :: "'v::len state \<Rightarrow> 'v state" where
  "compute_all st = st\<lparr>st_commands := map compute (st_commands st)\<rparr>"

definition metrics_run :: "'v::len state \<Rightarrow> 'v state" where
  "metrics_run st =
     compute_all (fold compute_connections [Tcp, Unix, Agent_unix, Agent_tcp]
       (st\<lparr>st_storage := storage_for_each collect_wrapper_metrics (st_storage st)\<rparr>))"

section \<open>What a snapshot keeps\<close>

lemma collect_wrapper_metrics_fields [simp]:
  "w_key (collect_wrapper_metrics w) = w_key w"
  "w_entry (collect_wrapper_metrics w) = w_entry w"
  "w_expired (collect_wrapper_metrics w) = w_expired w"
  by (simp_all add: collect_wrapper_metrics_def)

lemma metrics_run_fields [simp]:
  "st_storage (metrics_run st) = storage_for_each collect_wrapper_metrics (st_storage st)"
  "st_next_node (metrics_run st) = st_next_node st"
  "st_subscriptions (metrics_run st) = st_subscriptions st"
  "st_commands (metrics_run st) = map compute (st_commands st)"
  "st_tasks (metrics_run st) = st_tasks st"
  "st_timer (metrics_run st) = st_timer st"
  "st_mutex (metrics_run st) = st_mutex st"
  by (simp_all add: metrics_run_def compute_all_def compute_connections_def)

lemma metrics_run_connections:
  "st_connections (metrics_run st) k = map (\<lambda>(i, c). (i, compute_commands c)) (st_connections st k)"
  by (cases k) (simp_all add: metrics_run_def compute_all_def compute_connections_def)

lemma compute_commands_fields [simp]:
  "c_id (compute_commands c) = c_id c" "home (compute_commands c) = home c"
  "cm_commands (c_metrics (compute_commands c)) = map compute (cm_commands (c_metrics c))"
  "cm_network (c_metrics (compute_commands c)) = cm_network (c_metrics c)"
  by (simp_all add: compute_commands_def home_def)

lemma metrics_run_ok:
  assumes "state_ok st"
  shows "state_ok (metrics_run st)"
proof -
  have c: "connections_ok st" using assms by (simp add: state_ok_def)
  have i: "ids (st_connections (metrics_run st) k) = ids (st_connections st k)" for k
    unfolding metrics_run_connections by (rule ids_simps(4))
  then have live: "live_ids (metrics_run st) = live_ids st" by (simp add: live_ids_def)
  have fst_eq: "map fst (st_connections (metrics_run st) k) = map fst (st_connections st k)" for k
    by (auto simp: metrics_run_connections)
  have "c_id d = j \<and> home d = k \<and> length (cm_commands (c_metrics d)) = 32"
    if "(j, d) \<in> set (st_connections (metrics_run st) k)" for j d k
    using that connections_okD(2-4) [OF c] by (auto simp: metrics_run_connections)
  then have "connections_ok (metrics_run st)"
    using c unfolding connections_ok_def i fst_eq by blast
  moreover have "storage_ok (storage_for_each collect_wrapper_metrics (st_storage st))"
    using assms by (intro storage_for_each_ok) (simp_all add: state_ok_def entries_ok_def)
  ultimately show ?thesis
    using assms live nodes_skeleton [OF skeleton_for_each, of collect_wrapper_metrics "st_storage st"]
    by (simp add: state_ok_def entries_ok_def subscriptions_ok_def)
qed

text \<open>All the reads and writes of an entry that were ever counted.\<close>

definition total_reads :: "entry_metrics \<Rightarrow> u64" where
  "total_reads m = em_reads m + em_reads_accumulator m"

definition total_writes :: "entry_metrics \<Rightarrow> u64" where
  "total_writes m = em_writes m + em_writes_accumulator m"



end
