(* ===== verification/System.thy ===== *)
theory System
  imports Connection Lifetime Metrics_Collector
begin

text \<open>
  The running server: the handlers that the \<open>io_context\<close> runs, one after the other (one thread), as a
  step relation on the state; theory Threads has the handlers of several threads interleave. \<open>server.hpp\<close> accepts connections, asio completes their reads and writes and
  runs what was posted, the strand and the two timers run the collectors, and a connection that no
  handler holds any more is destroyed. A handler that fails (an \<open>Inl\<close> of the model) has no step: the
  theorems on the handlers say when that is.
\<close>

section \<open>Accepting a connection\<close>

text \<open>The completion of \<open>async_accept\<close> in \<open>do_tcp_accept\<close> and \<open>do_unix_accept\<close>; the identifier is
  random. On an error nothing happens, and both go on accepting.\<close>

definition on_accept ::
  "('v::len, 'x) protocol_scheme \<Rightarrow> connection_kind \<Rightarrow> bool \<Rightarrow> uuid \<Rightarrow> u64 \<Rightarrow> u64 \<Rightarrow> bytes \<Rightarrow> u16 \<Rightarrow> 'v state
     \<Rightarrow> 'v state" where
  "on_accept E kind error i created joined ip port st =
     (if \<not> error then start E joined (make_connection i kind Client created ip port) st else st)"

text \<open>No handler holds the connection any more.\<close>

definition unheld :: "connection \<Rightarrow> bool" where
  "unheld c \<longleftrightarrow> \<not> c_reading c \<and> c_writing c = None \<and> c_posted c = []"

section \<open>Steps\<close>

text \<open>Every handler but the one that serves the requests of a read.\<close>

inductive handler_step :: "('v::len, 'x) protocol_scheme \<Rightarrow> 'v state \<Rightarrow> 'v state \<Rightarrow> bool" for E where
  accept: "i \<notin> live_ids st \<Longrightarrow> handler_step E st (on_accept E kind error i created joined ip port st)"
| agent: "i \<notin> live_ids st \<Longrightarrow>
    handler_step E st (start E joined (make_connection i kind Agent created ip port) st)"
| read_error: "the_connection k i st = Some c \<Longrightarrow> c_reading c \<Longrightarrow>
    on_read E clock k i None st = Inr st' \<Longrightarrow> handler_step E st st'"
| posted: "the_connection k i st = Some c \<Longrightarrow> c_posted c \<noteq> [] \<Longrightarrow>
    handler_step E st (on_connection k i run_posted st)"
| written: "the_connection k i st = Some c \<Longrightarrow> c_writing c \<noteq> None \<Longrightarrow>
    handler_step E st (on_connection k i (on_write error n) st)"
| destroyed: "the_connection k i st = Some c \<Longrightarrow> unheld c \<Longrightarrow> handler_step E st (leave c st)"
| task: "st_tasks st \<noteq> [] \<Longrightarrow> run_task clock t st = Inr st' \<Longrightarrow> handler_step E st st'"
| timer: "timer_due (clock t) st \<Longrightarrow> on_timer clock t st = Inr st' \<Longrightarrow> handler_step E st st'"
| metrics: "handler_step E st (metrics_run st)"

inductive step :: "('v::len, 'x) protocol_scheme \<Rightarrow> 'v state \<Rightarrow> 'v state \<Rightarrow> bool" for E where
  read: "the_connection k i st = Some c \<Longrightarrow> c_reading c \<Longrightarrow> c_open c \<Longrightarrow> length data \<le> room c \<Longrightarrow>
    on_read E clock k i (Some data) st = Inr st' \<Longrightarrow> step E st st'"
| other: "handler_step E st st' \<Longrightarrow> step E st st'"

inductive reachable :: "('v::len, 'x) protocol_scheme \<Rightarrow> 'v state \<Rightarrow> bool" for E where
  initial: "reachable E (make_state now)"
| after: "reachable E st \<Longrightarrow> step E st st' \<Longrightarrow> reachable E st'"

section \<open>The invariant of a connection\<close>

text \<open>
  The receive buffer is well formed; the queue fits; a write is outstanding only with an answer at the
  front of the queue; and an open socket is always being read, and written to when there are answers.
  While a handler serves the requests of a read, the connection is busy and not read.
\<close>

definition queue_busy :: "message list \<times> message option \<times> bool \<Rightarrow> bool" where
  "queue_busy = (\<lambda>(ms, w, open). length ms \<le> pending_capacity \<and> (w \<noteq> None \<longrightarrow> ms \<noteq> []) \<and>
     (open \<longrightarrow> ms \<noteq> [] \<longrightarrow> w \<noteq> None))"

definition conn_ok :: "bool \<Rightarrow> connection \<Rightarrow> bool" where
  "conn_ok busy c \<longleftrightarrow> buffer_ok c \<and> queue_busy (wq c) \<and> (if busy then \<not> c_reading c else c_open c \<longrightarrow> c_reading c)"

text \<open>The connections that handlers are serving; each handler holds its connection, so it is not destroyed.\<close>

type_synonym handlers = "(connection_map \<times> uuid) set"

definition held :: "handlers \<Rightarrow> 'v::len state \<Rightarrow> bool" where
  "held F st \<longleftrightarrow> (\<forall>(k, i) \<in> F. the_connection k i st \<noteq> None)"

definition system_ok :: "handlers \<Rightarrow> 'v::len state \<Rightarrow> bool" where
  "system_ok F st \<longleftrightarrow> state_ok st \<and> held F st \<and>
     (\<forall>k i c. the_connection k i st = Some c \<longrightarrow> conn_ok ((k, i) \<in> F) c)"

lemma held_none [simp]: "held {} st"
  by (simp add: held_def)

lemma held_on [simp]: "held F (on_connection k i f st) = held F st"
  by (simp add: held_def the_connection_on)

lemma conn_ok_rx: "rx c = rx d \<Longrightarrow> conn_ok b c = conn_ok b d"
  by (simp add: rx_def conn_ok_def buffer_ok_def wq_def)

lemma conn_ok_rx_of:
  assumes "rx_of k i st' = rx_of k i st" "the_connection k i st' = Some c'"
  obtains c where "the_connection k i st = Some c" "\<And>b. conn_ok b c' = conn_ok b c"
proof -
  have "map_option rx (the_connection k i st) = Some (rx c')" using assms by (simp add: rx_of_def)
  then obtain c where "the_connection k i st = Some c" "rx c = rx c'" by blast
  then show thesis using that conn_ok_rx by blast
qed

lemma system_okD:
  assumes "system_ok F st" "the_connection k i st = Some c"
  shows "state_ok st" "conn_ok ((k, i) \<in> F) c" "c_id c = i" "home c = k" "length (cm_commands (c_metrics c)) = 32"
    "(i, c) \<in> set (st_connections st k)"
proof -
  show ok: "state_ok st" and "conn_ok ((k, i) \<in> F) c" using assms by (auto simp: system_ok_def)
  have co: "connections_ok st" using ok by (simp add: state_ok_def)
  show m: "(i, c) \<in> set (st_connections st k)" using the_connection_Some [OF co] assms(2) by blast
  show "c_id c = i" "home c = k" "length (cm_commands (c_metrics c)) = 32"
    using connections_okD(2-4) [OF co m] by simp_all
qed

lemma system_ok_on:
  assumes "system_ok F st" "the_connection k i st = Some c"
    and "c_id (f c) = c_id c" "home (f c) = home c" "cm_commands (c_metrics (f c)) = cm_commands (c_metrics c)"
    and "conn_ok ((k, i) \<in> F) (f c)"
  shows "system_ok F (on_connection k i f st)"
proof -
  note d = system_okD [OF assms(1,2)]
  have "state_ok (on_connection k i f st)"
    using state_ok_on_connection [OF d(1) assms(2), of f] assms(3-5) d(5) by simp
  moreover have "conn_ok ((k', j) \<in> F) c'" if "the_connection k' j (on_connection k i f st) = Some c'" for k' j c'
    using that assms(1,2,6) by (auto simp: the_connection_on system_ok_def split: if_splits)
  ultimately show ?thesis using assms(1) by (simp add: system_ok_def)
qed

section \<open>Every handler keeps the invariant\<close>

lemma conn_ok_start: "conn_ok False (do_read (make_connection i kind ty created ip port))"
  by (simp add: conn_ok_def do_read_def make_connection_def buffer_ok_def wq_def queue_busy_def max_length_def)

lemma the_connection_start:
  fixes kind ty created ip port
  assumes "state_ok st" "i \<notin> live_ids st"
  defines "c \<equiv> make_connection i kind ty created ip port"
  shows "state_ok (start E joined c st)"
    and "the_connection k j (start E joined c st) = (if (k, j) = (home c, i) then Some (do_read c) else the_connection k j st)"
proof -
  let ?st = "join E joined c st"
  have c: "c_id c = i" "length (cm_commands (c_metrics c)) = 32"
    by (simp_all add: c_def make_connection_def new_connection_metrics_def)
  have st': "state_ok ?st" by (rule join_ok [OF assms(1)]) (use assms(2) c in simp_all)
  then have co: "connections_ok st" "connections_ok ?st" using assms(1) by (simp_all add: state_ok_def)
  have new: "i \<notin> ids (st_connections st k)" for k using assms(2) by (auto simp: in_live_ids)
  have iff: "the_connection k j ?st = Some d \<longleftrightarrow>
      (k = home c \<and> j = i \<and> d = c) \<or> the_connection k j st = Some d" for k j d
    unfolding the_connection_Some [OF co(1)] the_connection_Some [OF co(2)]
    using new [of "home c"] c(1) by auto
  have the: "the_connection k j ?st = (if (k, j) = (home c, i) then Some c else the_connection k j st)" for k j
  proof (cases "(k, j) = (home c, i)")
    case True
    then show ?thesis using iff by simp
  next
    case False
    then have "the_connection k j ?st = Some d \<longleftrightarrow> the_connection k j st = Some d" for d using iff by auto
    then show ?thesis using False by (metis not_None_eq)
  qed
  then have "the_connection (home c) i ?st = Some c" by simp
  then show "state_ok (start E joined c st)"
    unfolding start_def c(1) using c(2)
    by (intro state_ok_on_connection [OF st']) (simp_all add: do_read_def compact_buffer_def home_def)
  show "the_connection k j (start E joined c st) = (if (k, j) = (home c, i) then Some (do_read c) else the_connection k j st)"
    unfolding start_def c(1) by (simp add: the_connection_on the option.map_id)
qed

lemma start_ok:
  assumes "system_ok F st" "i \<notin> live_ids st"
  shows "system_ok F (start E joined (make_connection i kind ty created ip port) st)"
proof -
  have ok: "state_ok st" "held F st" using assms(1) by (simp_all add: system_ok_def)
  have "(k, i) \<notin> F" for k
    using ok(2) assms(2) the_connection_live unfolding held_def by fastforce
  with the_connection_start [OF ok(1) assms(2), where E = E and joined = joined] assms(1) show ?thesis
    by (auto simp: system_ok_def held_def conn_ok_start)
qed

lemma read_ok:
  assumes "request_codes_ok E" "system_ok F st" "the_connection k i st = Some c" "(k, i) \<notin> F"
    and "length data \<le> room c" "on_read E clock k i (Some data) st = Inr st'" "held F st'"
  shows "system_ok F st'"
proof -
  note d = system_okD [OF assms(2,3)]
  have "buffer_ok c" using d(2) by (simp add: conn_ok_def)
  note frame = on_read_frame [OF assms(1) d(1) assms(3) this assms(5,6)]
  obtain c' where c': "the_connection k i st' = Some c'" "buffer_ok c'" "c_reading c'" "wq c' = wq c"
    using frame(3) by blast
  have "conn_ok ((k', j) \<in> F) d'" if "the_connection k' j st' = Some d'" for k' j d'
  proof (cases "(k', j) = (k, i)")
    case True
    then show ?thesis using that c' d(2) assms(4) by (simp add: conn_ok_def)
  next
    case False
    from conn_ok_rx_of [OF frame(4) [OF this] that] show ?thesis
      using assms(2) unfolding system_ok_def by metis
  qed
  then show ?thesis using frame(1) assms(7) by (simp add: system_ok_def)
qed

lemma closed_ok: "conn_ok b c \<Longrightarrow> conn_ok b (close (c\<lparr>c_reading := False\<rparr>))"
  by (simp add: conn_ok_def close_def buffer_ok_def wq_def queue_busy_def)

lemma on_send_ok:
  assumes "conn_ok b c"
  shows "conn_ok b (on_send m c)"
proof -
  let ?q = "push_back pending_capacity m (c_pending_writes c)"
  have q: "length (c_pending_writes c) \<le> pending_capacity" "queue_busy (wq c)"
    using assms by (simp_all add: conn_ok_def wq_def queue_busy_def)
  have len: "length ?q = min pending_capacity (Suc (length (c_pending_writes c)))"
    by (rule cb.length_push [OF q(1)])
  then have ne: "?q \<noteq> []" by (auto simp: pending_capacity_def)
  show ?thesis
  proof (cases "length ?q > 1")
    case True
    then have "c_pending_writes c \<noteq> []" using len by auto
    then have "queue_busy (?q, c_writing c, c_open c)"
      using q(2) len ne by (simp add: queue_busy_def wq_def)
    then show ?thesis
      using True assms by (simp add: on_send_def Let_def conn_ok_def wq_def buffer_ok_def)
  next
    case False
    obtain x xs where x: "?q = x # xs" using ne by (cases ?q) auto
    have "queue_busy (?q, Some x, c_open c)"
      using len by (simp add: queue_busy_def x)
    then show ?thesis
      using False assms by (simp add: on_send_def write_next_def Let_def conn_ok_def wq_def buffer_ok_def x)
  qed
qed

lemma run_posted_ok:
  assumes "conn_ok b c"
  shows "conn_ok b (run_posted c)"
proof (cases "c_posted c")
  case (Cons m ms)
  have "conn_ok b (c\<lparr>c_posted := ms\<rparr>)" using assms conn_ok_rx [of "c\<lparr>c_posted := ms\<rparr>" c] by (simp add: rx_def)
  then show ?thesis using on_send_ok Cons by (simp add: run_posted_def)
qed (use assms in \<open>simp add: run_posted_def\<close>)

lemma on_write_ok:
  assumes "conn_ok b c"
  shows "conn_ok b (on_write error n c)"
  using assms
  by (auto simp: on_write_def write_next_def close_def conn_ok_def wq_def queue_busy_def buffer_ok_def
      Let_def split: list.splits)

lemma run_posted_fields [simp]:
  "c_id (run_posted c) = c_id c" "home (run_posted c) = home c" "c_metrics (run_posted c) = c_metrics c"
  "c_reading (run_posted c) = c_reading c" "c_open (run_posted c) = c_open c"
  "c_posted (run_posted c) = tl (c_posted c)"
  by (simp_all add: run_posted_def on_send_def write_next_def home_def Let_def split: list.split)

lemma on_write_fields [simp]:
  "c_id (on_write error n c) = c_id c" "home (on_write error n c) = home c"
  "cm_commands (c_metrics (on_write error n c)) = cm_commands (c_metrics c)"
  "c_reading (on_write error n c) = c_reading c" "c_posted (on_write error n c) = c_posted c"
  by (simp_all add: on_write_def write_next_def close_def home_def Let_def split: list.split)

lemma the_connection_leave:
  assumes "system_ok F st" "the_connection k i st = Some c"
  shows "state_ok (leave c st)"
    and "the_connection k' j (leave c st) = Some c' \<Longrightarrow> the_connection k' j st = Some c'"
proof -
  note d = system_okD [OF assms]
  show ok: "state_ok (leave c st)" using leave_ok [OF d(1)] d(3,4,6) by simp
  then have co: "connections_ok st" "connections_ok (leave c st)" using d(1) by (simp_all add: state_ok_def)
  show "the_connection k' j st = Some c'" if "the_connection k' j (leave c st) = Some c'"
    using that unfolding the_connection_Some [OF co(1)] the_connection_Some [OF co(2)]
    by (auto split: if_splits)
qed

lemma leave_system_ok:
  assumes "system_ok F st" "the_connection k i st = Some c" "held F (leave c st)"
  shows "system_ok F (leave c st)"
  using assms(1,3) the_connection_leave [OF assms(1,2)] unfolding system_ok_def by blast

text \<open>The collector touches neither the connections nor the subscriptions.\<close>

lemma run_system_ok:
  assumes "system_ok F st" "run clock t st = Inr st'"
  shows "system_ok F st'"
proof -
  have e: "entries_ok st" using assms(1) by (simp add: system_ok_def state_ok_def)
  then have s: "storage_ok (st_storage st)" by (simp add: entries_ok_def)
  have m: "\<not> st_mutex st" using assms(2) by (simp add: run.simps [of clock t st] split: if_splits)
  have same: "st_storage st' = swept (clock t) (st_storage st)" "st_next_node st' = st_next_node st"
    "st_connections st' = st_connections st" "st_subscriptions st' = st_subscriptions st"
    "st_commands st' = st_commands st"
    using assms(2) by (auto simp: run_cases [OF s m] set_timer_def split: if_splits)
  have "entries_ok st'" using entries_ok_swept [OF e, of "clock t"] same(1,2) by (simp add: entries_ok_def)
  then show ?thesis
    using assms(1) same(3-5)
    by (auto simp: system_ok_def state_ok_def connections_ok_def subscriptions_ok_def live_ids_def the_connection_def
        held_def)
qed

lemma system_ok_other [simp]:
  "system_ok F (st\<lparr>st_tasks := ps\<rparr>) = system_ok F st"
  "system_ok F (st\<lparr>st_timer := d\<rparr>) = system_ok F st"
  by (simp_all add: system_ok_def state_ok_def entries_ok_def connections_ok_def subscriptions_ok_def live_ids_def
      the_connection_def held_def)

lemma task_ok: "system_ok F st \<Longrightarrow> run_task clock t st = Inr st' \<Longrightarrow> system_ok F st'"
  using run_system_ok [of F "st\<lparr>st_tasks := tl (st_tasks st)\<rparr>"]
  by (cases "st_tasks st") (auto simp: run_task_def schedule_timer.simps set_timer_def split: if_splits)

lemma the_connection_metrics: "the_connection k i (metrics_run st) = map_option compute_commands (the_connection k i st)"
proof -
  have "map_of (map (\<lambda>(i, c). (i, compute_commands c)) m) i = map_option compute_commands (map_of m i)" for m :: connections
    by (induction m) auto
  then show ?thesis by (simp add: the_connection_def metrics_run_connections)
qed

lemma metrics_system_ok:
  assumes "system_ok F st"
  shows "system_ok F (metrics_run st)"
proof -
  have "conn_ok b (compute_commands c) = conn_ok b c" for b c
    by (rule conn_ok_rx) (simp add: rx_def compute_commands_def)
  then show ?thesis
    using assms metrics_run_ok by (auto simp: system_ok_def held_def the_connection_metrics)
qed

lemma handler_step_ok:
  assumes "handler_step E st st'" "system_ok F st" "held F st'"
  shows "system_ok F st'"
  using assms(1)
proof cases
  case (accept i kind error created joined ip port)
  then show ?thesis using assms(2) by (simp add: on_accept_def start_ok)
next
  case (agent i joined kind created ip port)
  then show ?thesis using assms(2) by (simp add: start_ok)
next
  case (read_error k i c clock)
  note d = system_okD(2) [OF assms(2) read_error(1)]
  then have "(k, i) \<notin> F" using read_error(2) by (auto simp: conn_ok_def)
  then show ?thesis
    using system_ok_on [OF assms(2) read_error(1), of "\<lambda>c. close (c\<lparr>c_reading := False\<rparr>)"] closed_ok d read_error(3)
    by (simp add: on_read_def) (auto simp: close_def home_def)
next
  case (posted k i c)
  then show ?thesis
    using system_ok_on [OF assms(2) posted(2), of run_posted] run_posted_ok system_okD(2) [OF assms(2) posted(2)]
    by simp
next
  case (written k i c error n)
  then show ?thesis
    using system_ok_on [OF assms(2) written(2), of "on_write error n"] on_write_ok system_okD(2) [OF assms(2) written(2)]
    by simp
next
  case (destroyed k i c)
  then show ?thesis using leave_system_ok [OF assms(2)] assms(3) by blast
next
  case (task clock t)
  then show ?thesis using task_ok [OF assms(2)] by blast
next
  case (timer clock t)
  then show ?thesis using run_system_ok [of F "st\<lparr>st_timer := None\<rparr>"] assms(2) by (simp add: on_timer_def)
next
  case metrics
  then show ?thesis using metrics_system_ok [OF assms(2)] by simp
qed

lemma step_ok:
  assumes "step E st st'" "request_codes_ok E" "system_ok {} st"
  shows "system_ok {} st'"
  using assms(1)
proof cases
  case (read k i c data clock)
  then show ?thesis using read_ok [OF assms(2,3)] by simp
next
  case other
  then show ?thesis by (rule handler_step_ok [OF _ assms(3)]) simp
qed

lemma the_connection_make_state [simp]: "the_connection k i (make_state now) = None"
  by (simp add: the_connection_def make_state_def)

lemma reachable_system_ok: "reachable E st \<Longrightarrow> request_codes_ok E \<Longrightarrow> system_ok {} st"
proof (induction rule: reachable.induct)
  case (initial now)
  then show ?case by (simp add: system_ok_def make_state_ok)
qed (rule step_ok)

text \<open>Whatever the clients, the network and the clocks do, in every state the server reaches the
  invariant of the state holds (the container is well formed, every connection stands in its own map,
  every subscription belongs to a connection), every receive buffer is well formed, every queue of
  answers fits its capacity, and no open connection is idle: its socket is being read, and written to
  whenever an answer waits.\<close>

theorem reachable_states_ok:
  assumes "request_codes_ok E" "reachable E st"
  shows "state_ok st \<and> (\<forall>k i c. the_connection k i st = Some c \<longrightarrow>
    buffer_ok c \<and> length (c_pending_writes c) \<le> pending_capacity \<and>
    (c_writing c \<noteq> None \<longrightarrow> c_pending_writes c \<noteq> []) \<and>
    (c_open c \<longrightarrow> c_reading c \<and> (c_pending_writes c \<noteq> [] \<longrightarrow> c_writing c \<noteq> None)))"
  using reachable_system_ok [OF assms(2,1)] unfolding system_ok_def conn_ok_def queue_busy_def wq_def by auto

section \<open>A closed connection goes away\<close>

abbreviation steps :: "('v::len, 'x) protocol_scheme \<Rightarrow> 'v state \<Rightarrow> 'v state \<Rightarrow> bool" where
  "steps E \<equiv> (step E)\<^sup>*\<^sup>*"

lemma steps_ok: "steps E st st' \<Longrightarrow> request_codes_ok E \<Longrightarrow> system_ok {} st \<Longrightarrow> system_ok {} st'"
  by (induction rule: rtranclp_induct) (auto intro: step_ok)

text \<open>The handlers posted to a closed connection run.\<close>

lemma posted_drain_steps:
  assumes "the_connection k i st = Some c"
  shows "\<exists>st' c'. steps E st st' \<and> the_connection k i st' = Some c' \<and> c_posted c' = [] \<and>
    c_reading c' = c_reading c \<and> live_ids st' = live_ids st"
  using assms
proof (induction "length (c_posted c)" arbitrary: st c)
  case (Suc n)
  let ?st = "on_connection k i run_posted st" and ?c = "run_posted c"
  have st: "step E st ?st" using Suc.hyps(2) by (intro other posted [OF Suc.prems]) auto
  have "n = length (c_posted ?c)" "the_connection k i ?st = Some ?c"
    using Suc.hyps(2) Suc.prems by (simp_all add: the_connection_on)
  from Suc.hyps(1) [OF this] st show ?case
    by (auto intro: converse_rtranclp_into_rtranclp)
next
  case 0
  then show ?case by (intro exI [of _ st] exI [of _ c]) simp
qed

lemma unheld_steps:
  assumes "the_connection k i st = Some c" "\<not> c_reading c"
  shows "\<exists>st' c'. steps E st st' \<and> the_connection k i st' = Some c' \<and> unheld c' \<and> live_ids st' = live_ids st"
proof -
  obtain st1 c1 where 1: "steps E st st1" "the_connection k i st1 = Some c1" "c_posted c1 = []" "\<not> c_reading c1"
    "live_ids st1 = live_ids st" using posted_drain_steps [OF assms(1), of E] assms(2) by auto
  show ?thesis
  proof (cases "c_writing c1 = None")
    case True
    then show ?thesis using 1 by (auto simp: unheld_def)
  next
    case False
    let ?st = "on_connection k i (on_write True 0) st1"
    have "step E st1 ?st" using 1(2) False by (rule other [OF written])
    then have "steps E st ?st" by (rule rtranclp.rtrancl_into_rtrancl [OF 1(1)])
    moreover have "unheld (on_write True 0 c1)"
      using 1(3,4) by (simp add: unheld_def) (simp add: on_write_def close_def Let_def)
    ultimately show ?thesis using 1(2,5) by (intro exI [of _ ?st]) (simp add: the_connection_on)
  qed
qed

text \<open>C27: A connection whose socket was closed can always be brought to an end: the handlers it waits for
  complete, it is destroyed, and then neither its identifier nor any of its subscriptions is left, while
  every other connection stays.\<close>

theorem closed_connection_leaves:
  assumes "request_codes_ok E" "reachable E st" "the_connection k i st = Some c" "\<not> c_open c"
  shows "\<exists>st'. steps E st st' \<and> live_ids st' = live_ids st - {i} \<and>
    i \<notin> sub_connection_id ` set (st_subscriptions st')"
proof -
  have ok: "system_ok {} st" by (rule reachable_system_ok [OF assms(2,1)])
  have "\<exists>st1 c1. steps E st st1 \<and> the_connection k i st1 = Some c1 \<and> \<not> c_reading c1 \<and> live_ids st1 = live_ids st"
  proof (cases "c_reading c")
    case True
    let ?st = "on_connection k i (\<lambda>c. close (c\<lparr>c_reading := False\<rparr>)) st"
    have "step E st ?st"
      by (rule other [OF read_error [OF assms(3) True, of _ "\<lambda>_. 0"]]) (simp add: on_read_def)
    then have "steps E st ?st" by simp
    then show ?thesis
      using assms(3)
      by (intro exI [of _ ?st] exI [of _ "close (c\<lparr>c_reading := False\<rparr>)"]) (simp add: the_connection_on close_def)
  next
    case False
    then show ?thesis using assms(3) by (intro exI [of _ st] exI [of _ c]) simp
  qed
  then obtain st1 c1 where 1: "steps E st st1" "the_connection k i st1 = Some c1" "\<not> c_reading c1"
    "live_ids st1 = live_ids st" by blast
  obtain st2 c2 where 2: "steps E st1 st2" "the_connection k i st2 = Some c2" "unheld c2"
    "live_ids st2 = live_ids st1" using unheld_steps [OF 1(2,3)] by blast
  have s2: "steps E st st2" using 1(1) 2(1) by simp
  note d = system_okD [OF steps_ok [OF s2 assms(1) ok] 2(2)]
  have "step E st2 (leave c2 st2)" using 2(2,3) by (rule other [OF destroyed])
  then have "steps E st (leave c2 st2)" by (rule rtranclp.rtrancl_into_rtrancl [OF s2])
  moreover have "live_ids (leave c2 st2) = live_ids st - {i}"
  proof -
    have "connections_ok st2" "(c_id c2, c2) \<in> set (st_connections st2 (home c2))"
      using d(1,3,4,6) by (simp_all add: state_ok_def)
    from live_ids_leave [OF this] show ?thesis unfolding 1(4) 2(4) d(3) .
  qed
  moreover have "i \<notin> sub_connection_id ` set (st_subscriptions (leave c2 st2))" using d(3) by auto
  ultimately show ?thesis by blast
qed

section \<open>Witnesses\<close>

text \<open>One client has connected; then its socket fails.\<close>

definition accepted :: "16 state" where
  "accepted = on_accept sample_protocol Tcp_socket False 1 0 0 [] 0 (make_state 0)"

definition accepted_client :: connection where
  "accepted_client = do_read (make_connection 1 Tcp_socket Client 0 [] 0)"

definition failed :: "16 state" where
  "failed = on_connection Tcp 1 (\<lambda>c. close (c\<lparr>c_reading := False\<rparr>)) accepted"

lemma accepted_connection: "the_connection Tcp 1 accepted = Some accepted_client"
  by (simp add: accepted_def accepted_client_def on_accept_def start_def the_connection_on)
    (simp add: the_connection_def make_connection_def make_state_def home_def try_emplace_def)

lemma accepted_step: "step sample_protocol (make_state 0) accepted"
  unfolding accepted_def by (rule other [OF accept]) (simp add: live_ids_def make_state_def)

lemma accepted_reachable: "reachable sample_protocol accepted"
  by (rule after [OF initial accepted_step])

lemma failed_reachable: "reachable sample_protocol failed"
proof -
  have "c_reading accepted_client" by (simp add: accepted_client_def do_read_def)
  from read_error [OF accepted_connection this, of sample_protocol "\<lambda>_. 0" failed]
  show ?thesis by (intro after [OF accepted_reachable other]) (simp add: on_read_def failed_def)
qed

theorem reachable_states_ok_witness:
  "state_ok accepted \<and> buffer_ok accepted_client \<and> length (c_pending_writes accepted_client) \<le> pending_capacity"
  using reachable_states_ok [OF sample_request_codes_ok accepted_reachable] accepted_connection by blast

theorem closed_connection_leaves_witness:
  "\<exists>st'. steps sample_protocol failed st' \<and> live_ids st' = {} \<and> 1 \<notin> sub_connection_id ` set (st_subscriptions st')"
proof -
  have c: "the_connection Tcp 1 failed = Some (close (accepted_client\<lparr>c_reading := False\<rparr>))"
    using accepted_connection by (simp add: failed_def the_connection_on)
  have "live_ids failed = {1}"
    by (simp add: failed_def accepted_def on_accept_def start_def live_ids_join)
      (simp add: live_ids_def make_state_def make_connection_def)
  then show ?thesis
    using closed_connection_leaves [OF sample_request_codes_ok failed_reachable c] by (simp add: close_def)
qed

end
