(* ===== verification/Life_Cycle.thy ===== *)
theory Life_Cycle
  imports System
begin

text \<open>
  What happens to one key over the life of the server, and the types of the entries: what a single
  request may do to the slots, lifted through nested events, the requests of one read and the steps of
  the running server. The lifting is done once, in a locale over a relation between states; the life cycle
  of a key and the types of the entries are two interpretations of it.
\<close>

section \<open>What one request does to the slots\<close>

text \<open>A counter holds no bytes and a raw entry no quota; there is no third type.\<close>

definition well_typed :: "'v::len entry \<Rightarrow> bool" where
  "well_typed e = (case e_type e of
       Counter \<Rightarrow> e_buffer e = [] | Raw \<Rightarrow> e_counter e = 0 | Entry_unnamed b \<Rightarrow> False)"

text \<open>An entry rewritten in place keeps its type.\<close>

definition retyped :: "'v::len entry \<Rightarrow> 'v entry \<Rightarrow> bool" where
  "retyped e e' \<longleftrightarrow> e_type e' = e_type e \<and> (well_typed e \<longrightarrow> well_typed e')"

text \<open>One request creates a visible entry, rewrites an entry or removes a visible one.\<close>

fun changed :: "'v::len entry slot \<Rightarrow> 'v entry slot \<Rightarrow> bool" where
  "changed Free s = (case s of Free \<Rightarrow> True | Live e \<Rightarrow> well_typed e | Lingering e \<Rightarrow> False)"
| "changed (Live e) s = (case s of Free \<Rightarrow> True | Live e' \<Rightarrow> retyped e e' | Lingering e' \<Rightarrow> False)"
| "changed (Lingering e) s = (case s of Lingering e' \<Rightarrow> retyped e e' | _ \<Rightarrow> False)"

definition one_changed :: "'v::len storage \<Rightarrow> 'v storage \<Rightarrow> bool" where
  "one_changed s s' \<longleftrightarrow> (\<exists>k x. slots s' = (slots s)(k := x) \<and> changed (slots s k) x)"

lemma retyped_refl [simp]: "retyped e e"
  by (simp add: retyped_def)

lemma changed_refl [simp]: "changed x x"
  by (cases x) simp_all

lemma one_changedI: "changed (slots s k) x \<Longrightarrow> slots s' = (slots s)(k := x) \<Longrightarrow> one_changed s s'"
  by (auto simp: one_changed_def)

lemma one_changed_at:
  assumes "changed (slots s k) (slots s' k)" "\<And>j. j \<noteq> k \<Longrightarrow> slots s' j = slots s j"
  shows "one_changed s s'"
  using assms by (intro one_changedI [of s k "slots s' k"]) (auto simp: fun_eq_iff)

lemma unchangedI: "slots s' = slots s \<Longrightarrow> one_changed s s'"
  by (rule one_changedI [of s "[]" "slots s []"]) simp_all

lemma make_entry_typed:
  assumes "make_entry E ty v t x = Inr e" "ty = Counter \<or> ty = Raw"
  shows "well_typed e"
  using assms by (auto simp: make_entry_def well_typed_def res_simps)

lemma rewritten_retyped: "e_type e \<noteq> Counter \<Longrightarrow> retyped e (rewritten v t x e)"
  by (auto simp: retyped_def rewritten_def well_typed_def split: entry_types.split)

lemma create_spec_changed:
  assumes "create_spec as_insert fresh (rewritten v t x) s = (ok, s')" "well_typed fresh"
  shows "changed s s'"
  using assms by (cases s) (auto simp: rewritten_retyped split: if_splits)

lemma update_spec_retyped: "retyped e (snd (update_spec now r e))"
  by (auto simp: update_spec_def retyped_def well_typed_def split: attribute_types.split option.split entry_types.split)

section \<open>Every command does one of these\<close>

definition acts_once :: "'v::len command \<Rightarrow> bool" where
  "acts_once f \<longleftrightarrow> (\<forall>now ty view i st m st' m'.
     f now ty view i (st, m) = Inr (st', m') \<longrightarrow> state_ok st \<longrightarrow> one_changed (st_storage st) (st_storage st'))"

lemma acts_onceI:
  assumes "\<And>now ty view i st m st' m'. f now ty view i (st, m) = Inr (st', m') \<Longrightarrow> state_ok st \<Longrightarrow>
    entries_ok st \<Longrightarrow> one_changed (st_storage st) (st_storage st')"
  shows "acts_once f"
  using assms by (simp add: acts_once_def state_ok_def)

lemma acts_once_same:
  assumes "\<And>now ty view i st m st' m'. f now ty view i (st, m) = Inr (st', m') \<Longrightarrow> entries_ok st \<Longrightarrow>
    slots (st_storage st') = slots (st_storage st)"
  shows "acts_once f"
  using assms unchangedI by (intro acts_onceI) blast

lemma create_use_once:
  assumes "entries_ok st" "create_use E now key v t ttl ty as_insert st = Inr (ok, st')"
    and "ty = (if as_insert then Counter else Raw)"
  shows "one_changed (st_storage st) (st_storage st')"
proof -
  obtain x where x: "get_expiration_point E now t ttl = Inr x"
    using assms(2) by (auto simp: create_use_def res_simps)
  obtain e where e: "make_entry E ty v t x = Inr e"
  proof (cases as_insert)
    case True
    then have "emplace_entry E key v t x ty st = Inr (ok, st')" using assms(2) x by (simp add: create_use_def)
    from emplace_entry_slots [OF assms(1) this] show thesis using that by blast
  qed (use that assms(3) in \<open>simp add: make_entry_def\<close>)
  have "well_typed e" using make_entry_typed [OF e] assms(3) by simp
  with create_use_slots [OF assms(1,2) x e] show ?thesis
    by (auto intro: one_changedI create_spec_changed)
qed

lemma insert_set_once: "acts_once (insert_command E)" "acts_once (set_command E)"
  by (rule acts_onceI,
      auto simp: insert_command_def set_command_def res_simps dest: create_use_once)+

lemma find_or_fail_same: "slots (st_storage (snd (find_or_fail st k))) = slots (st_storage st)"
  by (intro slots_skeleton find_or_fail_skeleton)

lemma query_stat_once: "acts_once (query_command E)" "acts_once (stat_command E)"
  by (rule acts_once_same, drule query_command_state stat_command_state, auto simp: find_or_fail_same)+

lemma read_only_once:
  "acts_once (channel_command E)" "acts_once (channels_command E)" "acts_once (whoami_command E)"
  "acts_once (connection_command E)" "acts_once (connections_command E)" "acts_once (info_command E)"
  "acts_once base_command"
  by (rule acts_once_same, drule read_only_state, simp)+

lemma listing_once: "acts_once (list_command E)" "acts_once (stats_command E)"
proof -
  have "slots (st_storage st') = slots (st_storage st)"
    if "handle_fragmented_entries_response n k ser (st, m) = Inr (st', m')" "entries_ok st"
    for n k ser and st st' :: "'a state" and m m'
    using that count_listed_storage(2) [OF that(2)]
    by (auto simp: handle_fragmented_entries_response_def Let_def res_simps)
  then show "acts_once (list_command E)" "acts_once (stats_command E)"
    unfolding list_command_def stats_command_def by (intro acts_once_same; blast)+
qed

lemma subscriptions_once: "acts_once (subscribe_command E)" "acts_once (unsubscribe_command E)"
  by (rule acts_once_same,
      auto simp: subscribe_command_def unsubscribe_command_def insert_subscription_def res_simps split: if_splits)+

lemma publish_once: "acts_once (publish_command E)"
proof (rule acts_onceI)
  fix now ty view i st m st' m'
  assume f: "publish_command E now ty view i (st, m) = Inr (st', m')" and ok: "state_ok st"
  then obtain r where r: "parse_publish E view = Some r" by (auto simp: publish_command_def res_simps)
  have "st_storage st' = st_storage st" using publish_command_delivers [OF ok r, of now ty i m] f by auto
  then show "one_changed (st_storage st) (st_storage st')" by (simp add: unchangedI)
qed

lemma update_once: "acts_once (\<lambda>now ty. update_command E now)"
proof (rule acts_onceI)
  fix now ty view i st m st' m'
  assume f: "update_command E now view i (st, m) = Inr (st', m')" and ok: "entries_ok st"
  then obtain r where r: "parse_update E view = Some r" by (auto simp: update_command_def res_simps)
  have "slots (st_storage st') = (case live_entry (slots (st_storage st) (upd_key r)) of
      None \<Rightarrow> slots (st_storage st)
    | Some e \<Rightarrow> (slots (st_storage st))(upd_key r := Live (snd (update_spec now r e))))"
    using update_command_slots [OF ok r, of now i m] f by auto
  then show "one_changed (st_storage st) (st_storage st')"
    by (intro one_changed_at [of _ "upd_key r"])
      (cases "slots (st_storage st) (upd_key r)"; simp add: update_spec_retyped)+
qed

lemma purge_once: "acts_once (purge_command E)"
proof (rule acts_onceI)
  fix now ty view i st m st' m'
  assume f: "purge_command E now ty view i (st, m) = Inr (st', m')" and ok: "entries_ok st"
  then obtain k where k: "parse_purge E view = Some k" by (auto simp: purge_command_def res_simps)
  have "slots (st_storage st') = (case slots (st_storage st) k of
      Live e \<Rightarrow> (slots (st_storage st))(k := Free) | _ \<Rightarrow> slots (st_storage st))"
    using purge_command_slots [OF ok k, of now ty i m] f by auto
  then show "one_changed (st_storage st) (st_storage st')"
    by (intro one_changed_at [of _ k]) (cases "slots (st_storage st) k"; simp)+
qed

lemma event_once:
  assumes "acts_once d"
  shows "acts_once (event_command E d)"
proof (rule acts_onceI)
  fix now ty view i st m st' m'
  assume f: "event_command E d now ty view i (st, m) = Inr (st', m')" and ok: "state_ok st"
  then obtain ty' b ms where d: "d now ty' b i (st\<lparr>st_commands := ms\<rparr>, emplace_back success_response m) = Inr (st', m')"
    and ms: "mark_command ty' (st_commands st) = Inr ms"
    by (fastforce simp: event_command_def res_simps neq_Nil_conv split: list.split_asm)
  have "length ms = 32" using length_mark_command [OF ms] ok by (simp add: state_ok_def)
  from state_ok_commands(1) [OF ok this] d assms
  have "one_changed (st_storage (st\<lparr>st_commands := ms\<rparr>)) (st_storage st')" unfolding acts_once_def by blast
  then show "one_changed (st_storage st) (st_storage st')" by simp
qed

lemma dispatch_once:
  assumes "request_codes_ok E"
  shows "acts_once (dispatch n E)"
  using assms
proof (induction rule: dispatch_induct)
  case (step n d r f)
  have "\<forall>(r, f) \<in> set (command_functions E d). acts_once f"
    by (simp add: command_functions_def insert_set_once query_stat_once update_once purge_once
        listing_once read_only_once subscriptions_once publish_once event_once [OF step(1)])
  then show ?case using step(2) by fast
next
  case (select n g)
  then show ?case unfolding acts_once_def by blast
next
  case fuel
  show ?case unfolding acts_once_def by simp
qed (rule read_only_once(7))

lemma call_once:
  assumes "request_codes_ok E" "state_ok st" "call E now ty view i (st, m) = Inr (st', m')"
  shows "one_changed (st_storage st) (st_storage st')"
  using dispatch_once [OF assms(1), of "Suc (length view)"] assms(2,3) unfolding acts_once_def call_def by blast

section \<open>From one request to the running server\<close>

lemma run_sweeps:
  assumes "storage_ok (st_storage st)" "run clock t st = Inr st'"
  shows "st_storage st' = swept (clock t) (st_storage st)"
proof -
  have m: "\<not> st_mutex st" using assms(2) by (simp add: run.simps [of clock t st] split: if_splits)
  show ?thesis using assms(2) by (auto simp: run_cases [OF assms(1) m] set_timer_def split: if_splits)
qed

lemma task_sweeps:
  assumes "storage_ok (st_storage st)" "run_task clock t st = Inr st'"
  shows "st_storage st' = st_storage st \<or> (\<exists>now. st_storage st' = swept now (st_storage st))"
proof (cases "st_tasks st")
  case Nil
  then show ?thesis using assms(2) by (simp add: run_task_def)
next
  case (Cons p ps)
  let ?st = "st\<lparr>st_tasks := ps\<rparr>"
  have sched: "schedule_timer clock t p ?st = Inr st'" using assms(2) Cons by (simp add: run_task_def)
  show ?thesis
  proof (cases "p \<le> clock t")
    case True
    then have "run clock (Suc t) ?st = Inr st'"
      using sched by (simp add: schedule_timer.simps [of clock t p ?st])
    then have "st_storage st' = swept (clock (Suc t)) (st_storage ?st)"
      by (intro run_sweeps) (use assms(1) in simp)
    then have "st_storage st' = swept (clock (Suc t)) (st_storage st)" by simp
    then show ?thesis by (intro disjI2 exI)
  next
    case False
    then have "st' = set_timer (clock t) p ?st" using sched by (simp add: schedule_timer.simps [of clock t p ?st])
    then show ?thesis by (simp add: set_timer_def)
  qed
qed

text \<open>
  A relation between the states before and after that covers a request, whatever it does, and everything
  that leaves the storage, the strand and the timer alone, and that composes: it covers the requests of
  a whole read, and every step but those of the two collectors.
\<close>

inductive moves :: "('v::len state \<Rightarrow> 'v state \<Rightarrow> bool) \<Rightarrow> 'v state \<Rightarrow> 'v state \<Rightarrow> bool" for R where
  served: "R st st' \<Longrightarrow> moves R st st'"
| task: "st_tasks st \<noteq> [] \<Longrightarrow> run_task clock t st = Inr st' \<Longrightarrow> moves R st st'"
| timer: "on_timer clock t st = Inr st' \<Longrightarrow> moves R st st'"
| metrics: "moves R st (metrics_run st)"

locale request_relation =
  fixes E :: "('v::len, 'x) protocol_scheme" and R :: "'v state \<Rightarrow> 'v state \<Rightarrow> bool"
  assumes same: "st_storage st' = st_storage st \<Longrightarrow> st_tasks st' = st_tasks st \<Longrightarrow> st_timer st' = st_timer st \<Longrightarrow> R st st'"
    and call: "request_codes_ok E \<Longrightarrow> state_ok st \<Longrightarrow> call E now ty view i (st, m) = Inr (st', m') \<Longrightarrow> R st st'"
    and trans: "R s t \<Longrightarrow> R t u \<Longrightarrow> R s u"
begin

lemma serve_request:
  assumes "request_codes_ok E" "state_ok st" "serve_request E now k i v st = Inr st'"
  shows "state_ok st'" "R st st'"
proof -
  obtain c where c: "the_connection k i st = Some c"
    using assms(3) by (auto simp: serve_request_def Let_def res_simps the_connection_on)
  show "state_ok st'" by (rule serve_request_frame(1) [OF assms(1,2) c assms(3)])
  obtain st2 where st2: "st_storage st2 = st_storage st" "st_tasks st2 = st_tasks st" "st_timer st2 = st_timer st"
    "state_ok st2" "serve_request E now k i v st = bind_res (call E now (hd v) v i (st2, new_message)) (\<lambda>(st3, m).
       Inr (on_connection k i (send m) st3))"
    by (rule serve_request_cases [OF assms(2) c, of v E now]) (use assms(3) in simp_all)
  obtain st3 m where "call E now (hd v) v i (st2, new_message) = Inr (st3, m)" "st' = on_connection k i (send m) st3"
    using assms(3) unfolding st2(5) by (auto simp: res_simps)
  with call [OF assms(1) st2(4)] have "R st2 st3" "R st3 st'" by (auto intro: same)
  moreover have "R st st2" by (rule same [OF st2(1-3)])
  ultimately show "R st st'" using trans by blast
qed

lemma process_loop:
  assumes "request_codes_ok E" "state_ok st" "process_loop n E clock t k i st = Inr st'"
  shows "R st st'"
  using assms(2,3)
proof (induction n arbitrary: t st)
  case (Suc n)
  consider "st' = st" | v st1 where "serve_request E (clock t) k i v st = Inr st1"
      "process_loop n E clock (Suc t) k i st1 = Inr st'"
    using Suc.prems(2) by (auto simp: res_simps split: if_splits)
  then show ?case
  proof cases
    case 1
    then show ?thesis by (simp add: same)
  next
    case 2
    from serve_request [OF assms(1) Suc.prems(1) 2(1)] Suc.IH [OF _ 2(2)] show ?thesis by (blast intro: trans)
  qed
qed simp

lemma on_read:
  assumes "request_codes_ok E" "system_ok F st" "the_connection k i st = Some c" "length data \<le> room c"
    and "on_read E clock k i (Some data) st = Inr st'"
  shows "R st st'"
proof -
  note d = system_okD [OF assms(2,3)]
  then have "buffer_ok c" by (simp add: conn_ok_def)
  note r = received_state(1) [OF d(1) assms(3) this assms(4)]
  let ?st0 = "on_connection k i (received data) st"
  obtain n st1 where "process_loop n E clock 0 k i ?st0 = Inr st1"
    "st' = on_connection k i (do_read \<circ> compact_buffer_if_needed) st1"
    using assms(5) unfolding on_read_def try_process_next_def
    by (auto simp: res_simps simp del: process_loop.simps)
  with process_loop [OF assms(1) r] have "R ?st0 st1" "R st1 st'" by (auto intro: same)
  moreover have "R st ?st0" by (rule same) simp_all
  ultimately show ?thesis using trans by blast
qed

text \<open>A handler serves clients, or is one of the two collectors'.\<close>

lemma handler_step: "handler_step E st st' \<Longrightarrow> moves R st st'"
proof (induction rule: handler_step.induct)
  case (read_error k i st c clock st')
  then have "R st st'" by (auto simp: on_read_def same)
  then show ?case by (rule served)
next
  case (task st clock t st')
  then show ?case by (rule moves.task)
next
  case (timer clock st t st')
  then show ?case by (intro moves.timer)
next
  case (metrics st)
  show ?case by (rule moves.metrics)
qed (rule served, simp add: same on_accept_def start_def join_def leave_def Let_def)+

lemma step:
  assumes "step E st st'" "request_codes_ok E" "system_ok {} st"
  shows "moves R st st'"
  using assms(1)
proof cases
  case (read k i c data clock)
  from on_read [OF assms(2,3) read(1,4,5)] show ?thesis by (rule served)
next
  case other
  then show ?thesis by (rule handler_step)
qed

end

section \<open>The life of a key\<close>

text \<open>What the requests of one read can do to a key: a visible entry stays visible or goes, for good or
  to make room for another; a key that waits to be erased goes on waiting, its type unchanged.\<close>

fun served :: "'v::len entry slot \<Rightarrow> 'v entry slot \<Rightarrow> bool" where
  "served (Lingering e) s = (case s of Lingering e' \<Rightarrow> e_type e' = e_type e | _ \<Rightarrow> False)"
| "served _ s = (case s of Lingering e \<Rightarrow> False | _ \<Rightarrow> True)"

lemma served_refl [simp]: "served x x"
  by (cases x) simp_all

lemma served_changed: "changed x y \<Longrightarrow> served x y"
  by (cases x; cases y) (simp_all add: retyped_def)

lemma served_trans: "served x y \<Longrightarrow> served y z \<Longrightarrow> served x z"
  by (cases x; cases y; cases z) simp_all

interpretation life: request_relation E "\<lambda>st st'. \<forall>k. served (slots (st_storage st) k) (slots (st_storage st') k)" for E
proof
  fix now ty view i st m st' m'
  assume "request_codes_ok E" "state_ok st" "call E now ty view i (st, m) = Inr (st', m')"
  from call_once [OF this] obtain k x where
    "slots (st_storage st') = (slots (st_storage st))(k := x)" "changed (slots (st_storage st) k) x"
    by (auto simp: one_changed_def)
  then show "\<forall>k. served (slots (st_storage st) k) (slots (st_storage st') k)" by (simp add: served_changed)
qed (auto intro: served_trans)

text \<open>The collectors, on the slots.\<close>

lemma collectors_slots:
  assumes "entries_ok st"
  shows "slots (st_storage (metrics_run st)) = slots (st_storage st)"
    and "run_task clock t st = Inr st' \<Longrightarrow> slots (st_storage st') = slots (st_storage st) \<or>
      (\<exists>now. slots (st_storage st') = (\<lambda>k. collect_spec now (slots (st_storage st) k)))"
    and "on_timer clock t st = Inr st' \<Longrightarrow>
      \<exists>now. slots (st_storage st') = (\<lambda>k. collect_spec now (slots (st_storage st) k))"
proof -
  have ok: "storage_ok (st_storage st)" using assms by (simp add: entries_ok_def)
  have sw: "slots (swept now (st_storage st)) = (\<lambda>k. collect_spec now (slots (st_storage st) k))" for now
    by (rule ext) (rule slots_swept [OF ok])
  have "skeleton (storage_for_each collect_wrapper_metrics (st_storage st)) = skeleton (st_storage st)"
    by (rule skeleton_for_each) simp
  then show "slots (st_storage (metrics_run st)) = slots (st_storage st)"
    by (intro slots_skeleton) simp
  show "slots (st_storage st') = slots (st_storage st) \<or>
      (\<exists>now. slots (st_storage st') = (\<lambda>k. collect_spec now (slots (st_storage st) k)))"
    if "run_task clock t st = Inr st'"
    using task_sweeps [OF ok that] sw by metis
  show "\<exists>now. slots (st_storage st') = (\<lambda>k. collect_spec now (slots (st_storage st) k))"
    if "on_timer clock t st = Inr st'"
  proof -
    have "st_storage st' = swept (clock t) (st_storage st)"
      using run_sweeps [of "st\<lparr>st_timer := None\<rparr>"] ok that by (simp add: on_timer_def)
    then show ?thesis using sw by metis
  qed
qed

text \<open>A move is a collection, at one instant for all keys, or does to the slots what serving clients can.\<close>

lemma moves_slots:
  assumes "moves R st st'" "entries_ok st"
  shows "R st st' \<or> slots (st_storage st') = slots (st_storage st) \<or>
    (\<exists>now. slots (st_storage st') = (\<lambda>k. collect_spec now (slots (st_storage st) k)))"
  using assms(1)
proof cases
  case (task clock t)
  then show ?thesis using collectors_slots(2) [OF assms(2)] by blast
next
  case (timer clock t)
  then show ?thesis using collectors_slots(3) [OF assms(2)] by blast
next
  case metrics
  then show ?thesis using collectors_slots(1) [OF assms(2)] by blast
qed blast

abbreviation life_move :: "'v::len state \<Rightarrow> 'v state \<Rightarrow> bool" where
  "life_move st st' \<equiv> (\<forall>k. served (slots (st_storage st) k) (slots (st_storage st') k)) \<or>
    (\<exists>now. \<forall>k. slots (st_storage st') k = collect_spec now (slots (st_storage st) k))"

lemma moves_life:
  assumes "moves (\<lambda>st st'. \<forall>k. served (slots (st_storage st) k) (slots (st_storage st') k)) st st'" "entries_ok st"
  shows "life_move st st'"
  using moves_slots [OF assms] by (metis served_refl)

lemma system_ok_entries: "system_ok F st \<Longrightarrow> entries_ok st"
  by (simp add: system_ok_def state_ok_def)

lemma step_life:
  assumes "step E st st'" "request_codes_ok E" "system_ok {} st"
  shows "life_move st st'"
  by (rule moves_life [OF life.step [OF assms] system_ok_entries [OF assms(3)]])

text \<open>A key lives as the design says. In every step the server takes from a state it reaches, either
  the step is a collection, at one instant for all keys, which hides the visible entries whose time has
  passed and erases the hidden ones whose grace period is over; or clients are served, and then no
  visible entry becomes hidden, no hidden one becomes visible or free, and a hidden one keeps its type.\<close>

theorem key_life_cycle:
  assumes "request_codes_ok E" "reachable E st" "step E st st'"
  shows "(\<forall>k. served (slots (st_storage st) k) (slots (st_storage st') k)) \<or>
    (\<exists>now. \<forall>k. slots (st_storage st') k = collect_spec now (slots (st_storage st) k))"
  by (rule step_life [OF assms(3,1) reachable_system_ok [OF assms(2,1)]])

text \<open>An expired key stays hidden until it is erased. Along any run on which the key is never free, a
  key that waits to be erased goes on waiting, whatever clients send, and keeps its type.\<close>

theorem expired_stays_hidden:
  assumes "request_codes_ok E" "reachable E st" "slots (st_storage st) k = Lingering e"
    and "(\<lambda>a b. step E a b \<and> slots (st_storage b) k \<noteq> Free)\<^sup>*\<^sup>* st st'"
  shows "\<exists>e'. slots (st_storage st') k = Lingering e' \<and> e_type e' = e_type e"
  using assms(4)
proof (induction rule: rtranclp_induct)
  case (step a b)
  have "(step E)\<^sup>*\<^sup>* st a" using step.hyps(1) by (rule rtranclp_mono [THEN predicate2D, rotated]) auto
  then have ok: "system_ok {} a" using steps_ok assms(1,2) reachable_system_ok by blast
  obtain e' where e': "slots (st_storage a) k = Lingering e'" "e_type e' = e_type e" using step.IH by blast
  have b: "step E a b" "slots (st_storage b) k \<noteq> Free" using step.hyps(2) by simp_all
  consider "served (Lingering e') (slots (st_storage b) k)"
    | now where "slots (st_storage b) k = collect_spec now (Lingering e')"
    using step_life [OF b(1) assms(1) ok] e'(1) by metis
  then show ?case
    using e'(2) b(2) by cases (auto split: slot.splits if_splits)
qed (use assms(3) in simp)

section \<open>The types of the entries\<close>

fun slot_typed :: "'v::len entry slot \<Rightarrow> bool" where
  "slot_typed Free = True"
| "slot_typed (Live e) = well_typed e"
| "slot_typed (Lingering e) = well_typed e"

lemma slot_typed_changed: "changed x y \<Longrightarrow> slot_typed x \<Longrightarrow> slot_typed y"
  by (cases x; cases y) (simp_all add: retyped_def)

lemma slot_typed_collect: "slot_typed x \<Longrightarrow> slot_typed (collect_spec now x)"
  by (cases x) simp_all

interpretation types: request_relation E "\<lambda>st st'. (\<forall>k. slot_typed (slots (st_storage st) k)) \<longrightarrow>
    (\<forall>k. slot_typed (slots (st_storage st') k))" for E
proof
  fix now ty view i st m st' m'
  assume "request_codes_ok E" "state_ok st" "call E now ty view i (st, m) = Inr (st', m')"
  from call_once [OF this] obtain k x where
    "slots (st_storage st') = (slots (st_storage st))(k := x)" "changed (slots (st_storage st) k) x"
    by (auto simp: one_changed_def)
  then show "(\<forall>k. slot_typed (slots (st_storage st) k)) \<longrightarrow> (\<forall>k. slot_typed (slots (st_storage st') k))"
    using slot_typed_changed by auto
qed auto

lemma moves_typed:
  assumes "moves (\<lambda>st st'. (\<forall>k. slot_typed (slots (st_storage st) k)) \<longrightarrow>
      (\<forall>k. slot_typed (slots (st_storage st') k))) st st'"
    and "entries_ok st" "\<forall>k. slot_typed (slots (st_storage st) k)"
  shows "\<forall>k. slot_typed (slots (st_storage st') k)"
  using moves_slots [OF assms(1,2)] assms(3) by (auto simp: slot_typed_collect)

text \<open>The storage is well typed. In every state the server reaches, every entry is a counter, which
  holds no bytes, or a raw value, which holds no quota: no request, and no sequence of requests, makes
  an entry of one type hold data of the other.\<close>

theorem reachable_well_typed:
  assumes "request_codes_ok E" "reachable E st"
  shows "slot_typed (slots (st_storage st) k)"
proof -
  have "\<forall>k. slot_typed (slots (st_storage st) k)"
    using assms(2)
  proof (induction rule: reachable.induct)
    case (initial now)
    then show ?case by (simp add: make_state_def slots_Cons)
  next
    case (after st st')
    note ok = reachable_system_ok [OF after(1) assms(1)]
    from moves_typed [OF types.step [OF after(2) assms(1) ok] system_ok_entries [OF ok] after(3)] show ?case .
  qed
  then show ?thesis ..
qed

text \<open>C10: A request changes at most one key, and never the type of an entry: whatever bytes a client
  sends, events within events included, the command that runs creates one well-typed entry, rewrites
  one entry under its type, removes one visible entry, or leaves the keys and their values alone.\<close>

theorem call_changes_one_key:
  assumes "request_codes_ok E" "state_ok st" "call E now ty view i (st, m) = Inr (st', m')"
  shows "\<exists>k x. slots (st_storage st') = (slots (st_storage st))(k := x) \<and> changed (slots (st_storage st) k) x"
  using call_once [OF assms] by (simp add: one_changed_def)

section \<open>Witnesses\<close>

text \<open>A client stores the bytes 1, 2 under the key 8.\<close>

definition stored_wrapper :: "16 entry_wrapper" where
  "stored_wrapper = \<lparr>w_key = [8], w_entry = \<lparr>e_type = Raw, e_counter = 0, e_buffer = [1, 2], e_ttl_type = Seconds,
     e_expires_at = 1000001000\<rparr>, w_expired = False, w_metrics = count_read (count_write new_entry_metrics)\<rparr>"

definition stored :: "16 state \<Rightarrow> 16 state" where
  "stored st = st\<lparr>st_storage := [(st_next_node st, stored_wrapper)], st_next_node := Suc (st_next_node st),
     st_tasks := [1000001000]\<rparr>"

lemma set_stores:
  assumes "st_storage st = []" "st_tasks st = []"
  shows "set_command sample_protocol 1000 5 set_eight 1 (st, m) = Inr (stored st, emplace_back success_response m)"
  by (simp add: sample_expiration assms set_command_def parse_set_eight create_use_def emplace_entry_def make_wrapper_def
      make_entry_def storage_find_def storage_emplace_def storage_place_def stored_def stored_wrapper_def
      on_metrics_def status_def)

lemma set_eight_frame: "frames (sample_protocol :: 16 protocol) set_eight = ([set_eight], [])"
  by (simp add: frames.simps sample_size request_of_def enum_request_types_def declared_size_def fixed_part_def
      set_eight_def le_to_word_def)

lemma set_eight_type: "hd set_eight = request_code (sample_protocol :: 16 protocol) Set_req"
  by (simp add: set_eight_def)

lemma set_eight_call:
  assumes "st_storage st = []" "st_tasks st = []"
  shows "call sample_protocol 1000 (hd set_eight) set_eight 1 (st, m) = Inr (stored st, emplace_back success_response m)"
proof -
  let ?E = "sample_protocol :: 16 protocol"
  have "commands ?E (dispatch (length set_eight) ?E) ! unat (request_code ?E Set_req) = set_command ?E"
    by (rule command_of_request [OF sample_request_codes_ok]) (simp add: command_functions_def)
  then show ?thesis using set_stores [OF assms] by (simp add: call_def set_eight_type)
qed

lemma accepted_fields:
  "state_ok accepted" "st_storage accepted = []" "st_tasks accepted = []" "\<not> st_mutex accepted"
  "st_next_node accepted = 0"
  "buffer_ok accepted_client" "room accepted_client = 8096" "pending accepted_client = []"
  "c_reading accepted_client" "c_open accepted_client" "c_posted accepted_client = []"
proof -
  show "state_ok accepted" using reachable_system_ok [OF accepted_reachable sample_request_codes_ok]
    by (simp add: system_ok_def)
  show "st_storage accepted = []" "st_tasks accepted = []" "\<not> st_mutex accepted" "st_next_node accepted = 0"
    by (simp_all add: accepted_def on_accept_def start_def join_def make_state_def Let_def)
  show "buffer_ok accepted_client" "room accepted_client = 8096" "pending accepted_client = []"
    "c_reading accepted_client" "c_open accepted_client" "c_posted accepted_client = []"
    by (simp_all add: accepted_client_def do_read_def make_connection_def buffer_ok_def room_def pending_def max_length_def)
qed

lemma set_eight_served:
  obtains st where "serve_request sample_protocol 1000 Tcp 1 set_eight (on_connection Tcp 1 (received data) accepted) = Inr st"
    "st_storage st = [(0, stored_wrapper)]" "st_tasks st = [1000001000]" "\<not> st_mutex st"
proof -
  let ?c = "consume (length set_eight) (received data accepted_client)"
  have "length (cm_commands (c_metrics ?c)) = 32" "length (st_commands accepted) = 32"
    using accepted_fields(1) by (simp_all add: state_ok_def consume_def received_def accepted_client_def do_read_def
        make_connection_def new_connection_metrics_def compact_buffer_def Let_def)
  then obtain ms own where "mark_command (hd set_eight) (st_commands accepted) = Inr ms"
    "mark_command (hd set_eight) (cm_commands (c_metrics ?c)) = Inr own"
    by (auto simp: mark_command_def set_eight_type)
  then show thesis
    using that accepted_connection accepted_fields(2-5)
    by (simp add: serve_request_def set_eight_call the_connection_on stored_def Let_def)
qed

lemma set_eight_read:
  obtains st where "on_read sample_protocol (\<lambda>_. 1000) Tcp 1 (Some set_eight) accepted = Inr st"
    "st_storage st = [(0, stored_wrapper)]" "st_tasks st = [1000001000]" "\<not> st_mutex st"
proof -
  have len: "length set_eight \<le> room accepted_client" by (simp add: accepted_fields set_eight_def)
  obtain st1 where "serve_request sample_protocol 1000 Tcp 1 set_eight (on_connection Tcp 1 (received set_eight) accepted) = Inr st1"
    "st_storage st1 = [(0, stored_wrapper)]" "st_tasks st1 = [1000001000]" "\<not> st_mutex st1"
    by (rule set_eight_served)
  then show thesis
    using on_read_serves_helper [OF sample_request_codes_ok accepted_fields(1) accepted_connection accepted_fields(6) len,
        of "\<lambda>_. 1000"]
    by (intro that [of "on_connection Tcp 1 (do_read \<circ> compact_buffer_if_needed) st1"])
      (simp_all add: accepted_fields set_eight_frame sample_size)
qed

lemma stored_slot: "slots [(0, stored_wrapper)] k = (if k = [8] then Live (w_entry stored_wrapper) else Free)"
  by (simp add: slots_Cons stored_wrapper_def wrapper_slot_def)

lemma stored_fields: "e_expires_at (w_entry stored_wrapper) = 1000001000" "e_type (w_entry stored_wrapper) = Raw"
  by (simp_all add: stored_wrapper_def)

lemma set_eight_step:
  obtains st where "step sample_protocol accepted st" "st_storage st = [(0, stored_wrapper)]"
    "st_tasks st = [1000001000]" "\<not> st_mutex st"
proof -
  have "length set_eight \<le> room accepted_client" by (simp add: accepted_fields set_eight_def)
  with that set_eight_read accepted_fields(9,10) show thesis by (metis step.read accepted_connection)
qed

text \<open>A client has stored eight; the timer then runs at the entry's last instant, and hides it.\<close>

lemma eight_collected:
  fixes st :: "16 state"
  assumes "st_storage st = [(0, stored_wrapper)]" "st_tasks st = [1000001000]" "\<not> st_mutex st"
  obtains st' where "handler_step sample_protocol st st'" "slots (st_storage st) [8] = Live (w_entry stored_wrapper)"
    "slots (st_storage st') [8] = Lingering (w_entry stored_wrapper)" "st_connections st' = st_connections st"
    "st_timer st' = Some 11000001000"
proof -
  let ?st = "st\<lparr>st_tasks := []\<rparr>" and ?s = "swept 1000001000 (st_storage st)"
  have ok: "storage_ok (st_storage ?st)" "storage_ok (st_storage st)" by (simp_all add: assms(1) storage_ok_def)
  have due: "next_due ?s = 11000001000"
    by (simp add: assms(1) swept_def next_due_def overdue_def removable_def mark_expired_def candidate_def
        stored_wrapper_def grace_ns_def no_expiration_def)
  define st' where "st' = set_timer 1000001000 11000001000 (?st\<lparr>st_storage := ?s\<rparr>)"
  have "run (\<lambda>_. 1000001000) 1 ?st = Inr st'"
    using due run_cases [OF ok(1), of "\<lambda>_. 1000001000" 1] assms(3) by (simp add: st'_def no_expiration_def)
  then have "run_task (\<lambda>_. 1000001000) 0 st = Inr st'"
    by (simp add: run_task_def assms(2) schedule_timer.simps)
  then have "handler_step sample_protocol st st'" using assms(2) by (intro handler_step.task) simp_all
  moreover have "slots (st_storage st') [8] = Lingering (w_entry stored_wrapper)"
    using slots_swept [OF ok(2)] by (simp add: st'_def set_timer_def assms(1) stored_slot stored_fields)
  moreover have "slots (st_storage st) [8] = Live (w_entry stored_wrapper)" by (simp add: assms(1) stored_slot)
  ultimately show thesis using that by (simp add: st'_def set_timer_def)
qed

lemma eight_lingers:
  obtains st0 st1 where "reachable sample_protocol st0" "step sample_protocol st0 st1"
    "slots (st_storage st0) [8] = Live (w_entry stored_wrapper)"
    "slots (st_storage st1) [8] = Lingering (w_entry stored_wrapper)"
proof -
  obtain st0 where st0: "step sample_protocol accepted st0" "st_storage st0 = [(0, stored_wrapper)]"
    "st_tasks st0 = [1000001000]" "\<not> st_mutex st0"
    by (rule set_eight_step)
  have "reachable sample_protocol st0" by (rule after [OF accepted_reachable st0(1)])
  moreover obtain st1 where "handler_step sample_protocol st0 st1"
    "slots (st_storage st0) [8] = Live (w_entry stored_wrapper)"
    "slots (st_storage st1) [8] = Lingering (w_entry stored_wrapper)" by (rule eight_collected [OF st0(2-4)])
  ultimately show thesis using that step.other by blast
qed

theorem key_life_cycle_witness:
  "\<exists>st st' now. step sample_protocol st st' \<and> slots (st_storage st) [8] = Live (w_entry stored_wrapper) \<and>
    (\<forall>k. slots (st_storage st') k = collect_spec now (slots (st_storage st) k))"
proof -
  obtain st0 st1 where st: "reachable sample_protocol st0" "step sample_protocol st0 st1"
    "slots (st_storage st0) [8] = Live (w_entry stored_wrapper)"
    "slots (st_storage st1) [8] = Lingering (w_entry stored_wrapper)" by (rule eight_lingers)
  have "\<not> served (slots (st_storage st0) [8]) (slots (st_storage st1) [8])" by (simp add: st(3,4))
  with key_life_cycle [OF sample_request_codes_ok st(1,2)] st(2,3) show ?thesis by blast
qed

theorem expired_stays_hidden_witness:
  "\<exists>(st :: 16 state) e. reachable sample_protocol st \<and> slots (st_storage (metrics_run st)) [8] = Lingering e \<and> e_type e = Raw"
proof -
  obtain st0 st1 where st: "reachable sample_protocol st0" "step sample_protocol st0 st1"
    "slots (st_storage st0) [8] = Live (w_entry stored_wrapper)"
    "slots (st_storage st1) [8] = Lingering (w_entry stored_wrapper)" by (rule eight_lingers)
  have r1: "reachable sample_protocol st1" by (rule after [OF st(1,2)])
  have "slots (st_storage (metrics_run st1)) [8] = Lingering (w_entry stored_wrapper)"
    using st(4) slots_skeleton [OF skeleton_for_each [of collect_wrapper_metrics "st_storage st1"]] by simp
  then have "(\<lambda>a b. step sample_protocol a b \<and> slots (st_storage b) [8] \<noteq> Free)\<^sup>*\<^sup>* st1 (metrics_run st1)"
    using step.other [OF handler_step.metrics [of sample_protocol st1]] by (intro r_into_rtranclp) simp
  from expired_stays_hidden [OF sample_request_codes_ok r1 st(4) this] obtain e where
    "slots (st_storage (metrics_run st1)) [8] = Lingering e" "e_type e = Raw" by (auto simp: stored_fields(2))
  then show ?thesis using r1 by blast
qed

theorem reachable_well_typed_witness:
  "\<exists>st. reachable sample_protocol st \<and> slots (st_storage st) [8] = Live (w_entry stored_wrapper) \<and>
    slot_typed (slots (st_storage st) [8])"
proof -
  obtain st0 where "reachable sample_protocol st0" "slots (st_storage st0) [8] = Live (w_entry stored_wrapper)"
    using eight_lingers by blast
  with reachable_well_typed [OF sample_request_codes_ok] show ?thesis by blast
qed

theorem call_changes_one_key_witness:
  "\<exists>k x. slots [(0, stored_wrapper)] = (slots [])(k := x) \<and> changed Free x"
proof -
  let ?st = "make_state 0 :: 16 state"
  have empty: "st_storage ?st = []" "st_tasks ?st = []" "st_next_node ?st = 0" by (simp_all add: make_state_def)
  have "st_storage (stored ?st) = [(0, stored_wrapper)]" by (simp add: stored_def empty)
  then show ?thesis
    using call_changes_one_key [OF sample_request_codes_ok make_state_ok set_eight_call [OF empty(1,2)]]
    by (simp add: empty slots_Cons)
qed

end
