(* ===== verification/Collector_Timer.thy ===== *)
theory Collector_Timer
  imports Life_Cycle
begin

text \<open>
  The collector's wake-ups: while the storage holds entries, a wait of the timer or a call dispatched on
  the strand will run it again. Requests only add calls, and the one that puts the first entry in adds
  one; a collection that leaves entries behind sets the timer.
\<close>

section \<open>What one request does to the strand and the timer\<close>

text \<open>The timer is left alone, calls are appended to the strand, and an empty storage does not get an
  entry without one.\<close>

definition appends_calls :: "'v::len state \<Rightarrow> 'v state \<Rightarrow> bool" where
  "appends_calls st st' \<longleftrightarrow> st_timer st' = st_timer st \<and>
     (\<exists>ts. st_tasks st' = st_tasks st @ ts \<and> (st_storage st = [] \<longrightarrow> st_storage st' = [] \<or> ts \<noteq> []))"

definition appending :: "'v::len command \<Rightarrow> bool" where
  "appending f \<longleftrightarrow> (\<forall>now ty view i st m st' m'.
     f now ty view i (st, m) = Inr (st', m') \<longrightarrow> state_ok st \<longrightarrow> appends_calls st st')"

lemma appendingI:
  assumes "\<And>now ty view i st m st' m'. f now ty view i (st, m) = Inr (st', m') \<Longrightarrow> state_ok st \<Longrightarrow> appends_calls st st'"
  shows "appending f"
  using assms by (simp add: appending_def)

lemma appends_callsI:
  "st_timer st' = st_timer st \<Longrightarrow> st_tasks st' = st_tasks st @ ts \<Longrightarrow>
     (st_storage st = [] \<Longrightarrow> st_storage st' = [] \<or> ts \<noteq> []) \<Longrightarrow> appends_calls st st'"
  by (auto simp: appends_calls_def)

lemma appends_none:
  "st_timer st' = st_timer st \<Longrightarrow> st_tasks st' = st_tasks st \<Longrightarrow>
     (st_storage st = [] \<Longrightarrow> st_storage st' = []) \<Longrightarrow> appends_calls st st'"
  by (intro appends_callsI [of _ _ "[]"]) simp_all

lemma appends_calls_trans: "appends_calls a b \<Longrightarrow> appends_calls b c \<Longrightarrow> appends_calls a c"
  by (auto simp: appends_calls_def)

lemma updates_of_nothing [simp]:
  "storage_modify n f [] = []" "storage_erase n [] = []" "storage_for_each g [] = []" "storage_find k [] = None"
  by (simp_all add: storage_modify_def storage_erase_def storage_for_each_def storage_find_def)

section \<open>Every command\<close>

lemma emplace_entry_appends:
  assumes "emplace_entry E key v t x ty st = Inr (ok, st')"
  shows "appends_calls st st'"
proof -
  obtain w where w: "make_wrapper E key ty v t x = Inr w"
    using assms by (auto simp: emplace_entry_def res_simps)
  obtain s' ins where s': "storage_emplace E (st_next_node st) w (st_storage st) = (s', ins)"
    by (cases "storage_emplace E (st_next_node st) w (st_storage st)")
  show ?thesis
  proof (cases ins)
    case False
    then have "s' = st_storage st" using s' by (simp add: storage_emplace_def split: option.splits)
    then show ?thesis using assms w s' False by (auto simp: emplace_entry_def intro: appends_none)
  next
    case True
    let ?r = "scan_first_live x s'"
    have "snd ?r" if "st_storage st = []"
    proof -
      have "s' = [(st_next_node st, w)]" using s' that by (simp add: storage_emplace_def storage_place_def)
      then show ?thesis using w by (auto simp: make_wrapper_def make_entry_def res_simps split: if_splits)
    qed
    then show ?thesis
      using assms w s' True
      by (intro appends_callsI [of _ _ "if snd ?r then [x] else []"]) (auto simp: emplace_entry_def split: prod.splits)
  qed
qed

lemma create_use_appends:
  assumes "create_use E now key v t ttl ty as_insert st = Inr (ok, st')"
  shows "appends_calls st st'"
proof -
  obtain x where x: "get_expiration_point E now t ttl = Inr x"
    using assms by (auto simp: create_use_def res_simps)
  then consider n where "st' = on_storage (storage_modify n (set_again v t x)) st"
    | "emplace_entry E key v t x ty st = Inr (ok, st')"
    using assms by (auto simp: create_use_def split: option.splits if_splits prod.splits)
  then show ?thesis by cases (auto intro: appends_none emplace_entry_appends)
qed

lemma insert_set_appending: "appending (insert_command E)" "appending (set_command E)"
  by (rule appendingI, auto simp: insert_command_def set_command_def res_simps dest: create_use_appends)+

lemma find_or_fail_appends: "appends_calls st (snd (find_or_fail st k))"
  by (rule appends_none) (simp_all add: find_or_fail_def split: option.split)

lemma query_stat_appending: "appending (query_command E)" "appending (stat_command E)"
  by (rule appendingI, drule query_command_state stat_command_state, auto simp: find_or_fail_appends)+

lemma read_only_appending:
  "appending (channel_command E)" "appending (channels_command E)" "appending (whoami_command E)"
  "appending (connection_command E)" "appending (connections_command E)" "appending (info_command E)"
  "appending base_command"
  by (rule appendingI, drule read_only_state, simp add: appends_none)+

lemma listing_appending: "appending (list_command E)" "appending (stats_command E)"
  by (rule appendingI, auto simp: list_command_def stats_command_def handle_fragmented_entries_response_def
      Let_def res_simps intro!: appends_none)+

lemma subscriptions_appending: "appending (subscribe_command E)" "appending (unsubscribe_command E)"
  by (rule appendingI, auto simp: subscribe_command_def unsubscribe_command_def insert_subscription_def
      on_subscriptions_def res_simps intro!: appends_none split: if_splits)+

lemma purge_appending: "appending (purge_command E)"
  by (rule appendingI, auto simp: purge_command_def res_simps Let_def intro!: appends_none split: option.splits)

lemma update_appending: "appending (\<lambda>now ty. update_command E now)"
proof (rule appendingI)
  fix now ty view i st m st' m'
  assume f: "update_command E now view i (st, m) = Inr (st', m')"
  then obtain r where r: "parse_update E view = Some r" by (auto simp: update_command_def res_simps)
  obtain x s1 where s1: "find_or_fail st (upd_key r) = (x, s1)" by (cases "find_or_fail st (upd_key r)")
  have "appends_calls st s1" using find_or_fail_appends [of st "upd_key r"] s1 by simp
  moreover have "appends_calls s1 st'"
  proof (cases x)
    case None
    then show ?thesis using f r s1 by (simp add: update_command_def appends_none)
  next
    case (Some nw)
    let ?ts = "snd (snd (update_entry now (st_scheduled_key s1) r (snd nw)))"
    show ?thesis
      using f r s1 Some by (intro appends_callsI [of _ _ ?ts]) (auto simp: update_command_def Let_def split: prod.splits)
  qed
  ultimately show "appends_calls st st'" by (rule appends_calls_trans)
qed

lemma publish_to_appends:
  assumes "publish_to E i channel payload s st = Inr st'"
  shows "appends_calls st st'"
proof -
  have "appends_calls st (fold (\<lambda>k. on_connection k j f) ks st)" for j f and ks :: "connection_map list" and st :: "'a state"
  proof (induction ks arbitrary: st)
    case (Cons k ks)
    have "appends_calls st (on_connection k j f st)" by (rule appends_none) simp_all
    then show ?case using Cons appends_calls_trans by fastforce
  qed (simp add: appends_none)
  then show ?thesis using assms by (auto simp: publish_to_def Let_def res_simps appends_none split: if_splits)
qed

lemma publish_appending: "appending (publish_command E)"
proof (rule appendingI)
  fix now ty view i st m st' m'
  assume f: "publish_command E now ty view i (st, m) = Inr (st', m')"
  have members: "appends_calls s s'" if "fold_res (publish_to E i channel payload) subs s = Inr s'"
    for channel payload subs and s s' :: "'a state"
    using that
  proof (induction subs arbitrary: s)
    case Nil
    then show ?case by (simp add: appends_none)
  next
    case (Cons u subs)
    then show ?case by (auto simp: res_simps intro: appends_calls_trans publish_to_appends)
  qed
  have marked: "appends_calls st (on_subscriptions g st)" for g by (rule appends_none) (simp_all add: on_subscriptions_def)
  show "appends_calls st st'"
    using f by (auto simp: publish_command_def Let_def res_simps appends_none split: if_splits
        intro: appends_calls_trans [OF marked members])
qed

lemma event_appending:
  assumes "appending d"
  shows "appending (event_command E d)"
proof (rule appendingI)
  fix now ty view i st m st' m'
  assume f: "event_command E d now ty view i (st, m) = Inr (st', m')" and ok: "state_ok st"
  then obtain ty' b ms where d: "d now ty' b i (st\<lparr>st_commands := ms\<rparr>, emplace_back success_response m) = Inr (st', m')"
    and ms: "mark_command ty' (st_commands st) = Inr ms"
    by (fastforce simp: event_command_def res_simps neq_Nil_conv split: list.split_asm)
  have "length ms = 32" using length_mark_command [OF ms] ok by (simp add: state_ok_def)
  from state_ok_commands(1) [OF ok this] d assms
  have "appends_calls (st\<lparr>st_commands := ms\<rparr>) st'" unfolding appending_def by blast
  then show "appends_calls st st'" by (simp add: appends_calls_def)
qed

lemma dispatch_appending:
  assumes "request_codes_ok E"
  shows "appending (dispatch n E)"
  using assms
proof (induction rule: dispatch_induct)
  case (step n d r f)
  have "\<forall>(r, f) \<in> set (command_functions E d). appending f"
    by (simp add: command_functions_def insert_set_appending query_stat_appending update_appending purge_appending
        listing_appending read_only_appending subscriptions_appending publish_appending event_appending [OF step(1)])
  then show ?case using step(2) by fast
next
  case (select n g)
  then show ?case unfolding appending_def by blast
next
  case fuel
  show ?case unfolding appending_def by simp
qed (rule read_only_appending(7))

section \<open>The running server\<close>

text \<open>While there are entries, the collector will run again.\<close>

definition armed :: "'v::len state \<Rightarrow> bool" where
  "armed st \<longleftrightarrow> st_storage st = [] \<or> st_timer st \<noteq> None \<or> st_tasks st \<noteq> []"

text \<open>The instant \<open>no_expiration\<close>, which the collector takes for "nothing to wait for", is not an entry's.\<close>

definition dated :: "'v::len state \<Rightarrow> bool" where
  "dated st \<longleftrightarrow> (\<forall>(n, w) \<in> set (st_storage st). candidate w \<noteq> no_expiration)"

lemma armed_appends: "appends_calls st st' \<Longrightarrow> armed st \<Longrightarrow> armed st'"
  by (auto simp: appends_calls_def armed_def)

interpretation calls: request_relation E appends_calls for E
proof
  fix now ty view i and st st' :: "'a state" and m m'
  assume "request_codes_ok E" "state_ok st" "call E now ty view i (st, m) = Inr (st', m')"
  then show "appends_calls st st'"
    using dispatch_appending [of E "Suc (length view)"] unfolding appending_def call_def by blast
qed (auto intro: appends_none appends_calls_trans)

lemma next_due_dated:
  assumes "dated st" "st_storage st \<noteq> []"
  shows "next_due (st_storage st) \<noteq> no_expiration"
proof -
  let ?A = "candidate ` snd ` set (st_storage st)"
  have fin: "finite ?A" and ne: "?A \<noteq> {}" using assms(2) by simp_all
  have "Min ?A \<in> ?A" by (rule Min_in [OF fin ne])
  then have "Min ?A \<noteq> no_expiration" using assms(1) by (force simp: dated_def)
  moreover have "next_due (st_storage st) = Min ?A"
    using Min_insert [OF fin ne] by (simp add: next_due_def min_absorb2)
  ultimately show ?thesis by simp
qed

lemma run_arms:
  assumes "entries_ok st" "run clock t st = Inr st'" "dated st'"
  shows "armed st'"
  using run_effect [OF assms(1,2)] next_due_dated [OF assms(3)] by (auto simp: armed_def)

lemma moves_armed:
  assumes "moves appends_calls st st'" "entries_ok st" "armed st" "dated st'"
  shows "armed st'"
  using assms(1)
proof cases
  case served
  then show ?thesis using armed_appends assms(3) by blast
next
  case (task clock t)
  then obtain p ps where p: "st_tasks st = p # ps" "schedule_timer clock t p (st\<lparr>st_tasks := ps\<rparr>) = Inr st'"
    by (cases "st_tasks st") (auto simp: run_task_def)
  show ?thesis
  proof (cases "p \<le> clock t")
    case True
    then have "run clock (Suc t) (st\<lparr>st_tasks := ps\<rparr>) = Inr st'"
      using p(2) by (simp add: schedule_timer.simps [of clock t p])
    from run_arms [OF _ this assms(4)] assms(2) show ?thesis by (simp add: entries_ok_def)
  next
    case False
    then show ?thesis using p(2) by (auto simp: schedule_timer.simps [of clock t p] set_timer_def armed_def)
  qed
next
  case (timer clock t)
  then have "run clock t (st\<lparr>st_timer := None\<rparr>) = Inr st'" by (simp add: on_timer_def)
  from run_arms [OF _ this assms(4)] assms(2) show ?thesis by (simp add: entries_ok_def)
next
  case metrics
  then show ?thesis using assms(3) by (auto simp: armed_def)
qed

text \<open>The collector never sleeps through. Along every run of the server in which no entry is due at
  the last instant of the clock, whatever clients send and in whatever order the steps come, as long as
  the storage holds an entry the timer is set or a call of \<open>schedule_timer\<close> waits on the strand.\<close>

theorem collector_armed:
  assumes "request_codes_ok E" "(\<lambda>a b. step E a b \<and> dated b)\<^sup>*\<^sup>* (make_state now) st"
  shows "st_storage st = [] \<or> st_timer st \<noteq> None \<or> st_tasks st \<noteq> []"
proof -
  have "reachable E st \<and> armed st"
    using assms(2)
  proof (induction rule: rtranclp_induct)
    case base
    show ?case by (intro conjI reachable.initial) (simp add: armed_def make_state_def)
  next
    case (step a b)
    then have ok: "system_ok {} a" using reachable_system_ok [OF _ assms(1)] by blast
    from step.hyps have "step E a b" "dated b" by simp_all
    with moves_armed [OF calls.step [OF this(1) assms(1) ok] system_ok_entries [OF ok]] step.IH reachable.after
    show ?case by blast
  qed
  then show ?thesis by (simp add: armed_def)
qed

theorem collector_armed_witness:
  "\<exists>st. (\<lambda>a b. step sample_protocol a b \<and> dated b)\<^sup>*\<^sup>* (make_state 0 :: 16 state) st \<and> st_storage st \<noteq> [] \<and>
     (st_timer st \<noteq> None \<or> st_tasks st \<noteq> [])"
proof -
  let ?R = "\<lambda>a b. step sample_protocol a b \<and> dated b"
  obtain st where st: "step sample_protocol accepted st" "st_storage st = [(0, stored_wrapper)]"
    by (rule set_eight_step)
  have "dated accepted" by (simp add: dated_def accepted_def on_accept_def start_def join_def make_state_def Let_def)
  moreover have "dated st"
    by (simp add: dated_def st(2) candidate_def stored_wrapper_def no_expiration_def)
  ultimately have "?R (make_state 0) accepted" "?R accepted st" using accepted_step st(1) by simp_all
  from rtranclp.rtrancl_into_rtrancl [of ?R, OF r_into_rtranclp [of ?R, OF this(1)] this(2)]
  have "?R\<^sup>*\<^sup>* (make_state 0) st" .
  from collector_armed [OF sample_request_codes_ok this] this st(2) show ?thesis by (intro exI [of _ st]) simp
qed

end
