(* ===== verification/Pools.thy ===== *)
theory Pools
  imports Message Circular_Buffer
begin

text \<open>
  \<open>messages_pool.cpp\<close>, \<open>buffers_pool.cpp\<close> and \<open>reusable_buffer.hpp\<close>: the objects each thread
  keeps to use again. The two pools have the same code over different objects, so the model has one
  pool over objects of any content \<open>'c\<close>, which is emptied by \<open>clear\<close>: both vectors of a message, or the bytes of
  a buffer.

  \<open>available_\<close> and \<open>used_\<close> hold \<open>shared_ptr\<close>s: here references (numbers) into a map of the
  objects; \<open>pl_next\<close> is the next reference. An object that no queue holds stays alive in its
  users' hands, so the map never shrinks. The pool is thread-local: what other threads do is not seen.
\<close>

record 'c pooled =
  p_recyclable :: bool
  p_in_use :: bool
  p_content :: 'c

record 'c pool =
  pl_capacity :: nat
  pl_available :: "nat list"
  pl_used :: "nat list"
  pl_objects :: "nat \<Rightarrow> 'c pooled"
  pl_next :: nat

text \<open>A thread's pool before \<open>prepares\<close>: two circular buffers of capacity 0.\<close>

definition new_pool :: "'c \<Rightarrow> 'c pool" where
  "new_pool content = \<lparr>pl_capacity = 0, pl_available = [], pl_used = [],
     pl_objects = (\<lambda>_. \<lparr>p_recyclable = False, p_in_use = False, p_content = content\<rparr>), pl_next = 0\<rparr>"

text \<open>\<open>make_shared\<close> of a recyclable object, put at the back of \<open>available_\<close>.\<close>

definition add_object :: "'c \<Rightarrow> 'c pool \<Rightarrow> 'c pool" where
  "add_object content p = p\<lparr>pl_available := push_back (pl_capacity p) (pl_next p) (pl_available p),
     pl_objects := (pl_objects p)(pl_next p :=
       \<lparr>p_recyclable = True, p_in_use = False, p_content = content\<rparr>),
     pl_next := Suc (pl_next p)\<rparr>"

definition prepares :: "'c \<Rightarrow> nat \<Rightarrow> 'c pool \<Rightarrow> 'c pool" where
  "prepares content initial p = (add_object content ^^ initial) (p\<lparr>pl_capacity := initial * 2\<rparr>)"

text \<open>\<open>std::remove_if\<close> calls the predicate once per element, in order.\<close>

fun recycle_loop :: "('c \<Rightarrow> 'c) \<Rightarrow> nat list \<Rightarrow> nat list \<times> 'c pool \<Rightarrow> nat list \<times> 'c pool" where
  "recycle_loop clear [] acc = acc"
| "recycle_loop clear (a # as) (kept, p) =
     (let x = pl_objects p a
      in if \<not> p_in_use x
         then recycle_loop clear as (kept, p\<lparr>
           pl_objects := (pl_objects p)(a := x\<lparr>p_content := clear (p_content x)\<rparr>),
           pl_available := push_back (pl_capacity p) a (pl_available p)\<rparr>)
         else recycle_loop clear as (kept @ [a], p))"

definition recycle :: "('c \<Rightarrow> 'c) \<Rightarrow> 'c pool \<Rightarrow> 'c pool" where
  "recycle clear p = (let (kept, p') = recycle_loop clear (pl_used p) ([], p) in p'\<lparr>pl_used := kept\<rparr>)"

definition fit :: "nat \<Rightarrow> 'c pool \<Rightarrow> 'c pool" where
  "fit limit p = (if length (pl_available p) > limit
     then p\<lparr>pl_available := take limit (pl_available p)\<rparr> else p)"

text \<open>The loop that refills \<open>available_\<close>; \<open>None\<close> when it does not end.\<close>

partial_function (option) refill :: "'c \<Rightarrow> nat \<Rightarrow> 'c pool \<Rightarrow> 'c pool option" where
  "refill content limit p =
     (if length (pl_available p) < limit then refill content limit (add_object content p) else Some p)"

definition pool_size :: nat where "pool_size = 20480"

text \<open>\<open>available_.back()\<close> of an empty buffer is out of bounds.\<close>

definition take_one :: "'c \<Rightarrow> ('c \<Rightarrow> 'c) \<Rightarrow> nat \<Rightarrow> 'c pool \<Rightarrow> (nat \<times> 'c pool) res option" where
  "take_one content clear limit p =
     (let p1 = fit pool_size (recycle clear p)
      in case (if pl_available p1 = [] then refill content limit p1 else Some p1) of
           None \<Rightarrow> None
         | Some p2 \<Rightarrow> Some
             (if pl_available p2 = [] then Inl Out_of_bounds
              else let a = last (pl_available p2)
                   in Inr (a, p2\<lparr>pl_objects := (pl_objects p2)(a := (pl_objects p2 a)\<lparr>p_in_use := True\<rparr>),
                        pl_used := push_back (pl_capacity p2) a (pl_used p2),
                        pl_available := butlast (pl_available p2)\<rparr>)))"

text \<open>\<open>connection::on_write\<close> gives a message back.\<close>

definition release :: "nat \<Rightarrow> 'c pool \<Rightarrow> 'c pool" where
  "release a p = (if p_recyclable (pl_objects p a)
     then p\<lparr>pl_objects := (pl_objects p)(a := (pl_objects p a)\<lparr>p_in_use := False\<rparr>)\<rparr> else p)"

text \<open>The destructor of an entry: \<open>recyclable_ = true\<close>, and nothing else.\<close>

definition destroy_entry :: "nat \<Rightarrow> 'c pool \<Rightarrow> 'c pool" where
  "destroy_entry a p = p\<lparr>pl_objects := (pl_objects p)(a := (pl_objects p a)\<lparr>p_recyclable := True\<rparr>)\<rparr>"

section \<open>The two pools\<close>

definition clear_message :: "message \<Rightarrow> message" where
  "clear_message m = new_message"

definition messages_take_one :: "message pool \<Rightarrow> (nat \<times> message pool) res option" where
  "messages_take_one = take_one new_message clear_message pool_size"

definition clear_bytes :: "bytes \<Rightarrow> bytes" where
  "clear_bytes b = []"

definition buffers_take_one :: "bytes pool \<Rightarrow> (nat \<times> bytes pool) res option" where
  "buffers_take_one = take_one [] clear_bytes pool_size"

section \<open>The invariant\<close>

definition available_ok :: "'c \<Rightarrow> 'c pool \<Rightarrow> bool" where
  "available_ok content p \<longleftrightarrow> (\<forall>a \<in> set (pl_available p). a < pl_next p \<and>
     pl_objects p a = \<lparr>p_recyclable = True, p_in_use = False, p_content = content\<rparr>)"

definition pool_ok :: "'c \<Rightarrow> 'c pool \<Rightarrow> bool" where
  "pool_ok content p \<longleftrightarrow>
     distinct (pl_available p @ pl_used p) \<and> available_ok content p \<and>
     (\<forall>a \<in> set (pl_used p). a < pl_next p \<and> p_recyclable (pl_objects p a)) \<and>
     length (pl_available p) \<le> pl_capacity p \<and> length (pl_used p) \<le> pl_capacity p"

lemma new_pool_ok: "pool_ok content (new_pool c)"
  by (simp add: pool_ok_def available_ok_def new_pool_def)

lemma add_object_ok:
  assumes "pool_ok content p"
  shows "pool_ok content (add_object content p)" "pl_capacity (add_object content p) = pl_capacity p"
    "pl_used (add_object content p) = pl_used p"
    "pl_available (add_object content p) = push_back (pl_capacity p) (pl_next p) (pl_available p)"
proof -
  let ?n = "pl_capacity p" and ?a = "pl_next p" and ?av = "pl_available p"
  have le: "length ?av \<le> ?n" using assms by (simp add: pool_ok_def)
  have sub: "set (push_back ?n ?a ?av) \<subseteq> insert ?a (set ?av)" by (rule cb.set_push [OF le])
  have "?a \<notin> set ?av \<union> set (pl_used p)" using assms by (auto simp: pool_ok_def available_ok_def)
  moreover have "distinct (push_back ?n ?a ?av)"
    using assms calculation unfolding cb.push_latest [OF le]
    by (intro distinct_drop) (auto simp: pool_ok_def)
  moreover have "length (push_back ?n ?a ?av) \<le> ?n" using cb.length_push [OF le] by simp
  ultimately show "pool_ok content (add_object content p)"
    using assms sub by (auto simp: pool_ok_def available_ok_def add_object_def less_Suc_eq)
qed (simp_all add: add_object_def)

lemma prepares_ok: "pool_ok content (prepares content n (new_pool c))"
  and prepares_capacity: "pl_capacity (prepares content n (new_pool c)) = n * 2"
proof -
  let ?p = "(new_pool c)\<lparr>pl_capacity := n * 2\<rparr>"
  have "pool_ok content ?p" by (simp add: pool_ok_def available_ok_def new_pool_def)
  then have "pool_ok content ((add_object content ^^ m) ?p) \<and> pl_capacity ((add_object content ^^ m) ?p) = n * 2" for m
    by (induction m) (simp_all add: add_object_ok)
  then show "pool_ok content (prepares content n (new_pool c))"
    "pl_capacity (prepares content n (new_pool c)) = n * 2" by (simp_all add: prepares_def)
qed

text \<open>The pool in the middle of \<open>recycle\<close>: \<open>kept\<close> stay used, \<open>as\<close> are still to be looked at.\<close>

definition recycling :: "'c \<Rightarrow> nat list \<Rightarrow> nat list \<times> 'c pool \<Rightarrow> bool" where
  "recycling content as = (\<lambda>(kept, p). pool_ok content (p\<lparr>pl_used := kept @ as\<rparr>) \<and>
     (\<forall>a \<in> set kept. p_in_use (pl_objects p a)))"

lemma recycling_step:
  assumes "\<And>x. clear x = content" "recycling content (a # as) (kept, p)" "\<not> p_in_use (pl_objects p a)"
  shows "recycling content as (kept, p\<lparr>
    pl_objects := (pl_objects p)(a := (pl_objects p a)\<lparr>p_content := clear (p_content (pl_objects p a))\<rparr>),
    pl_available := push_back (pl_capacity p) a (pl_available p)\<rparr>)"
proof -
  let ?n = "pl_capacity p" and ?av = "pl_available p"
  have ok: "distinct (?av @ kept @ a # as)" "available_ok content p" "length ?av \<le> ?n"
    "a < pl_next p" "p_recyclable (pl_objects p a)"
    "\<And>b. b \<in> set (kept @ as) \<Longrightarrow> b < pl_next p \<and> p_recyclable (pl_objects p b)"
    "length (kept @ as) \<le> ?n" "\<And>b. b \<in> set kept \<Longrightarrow> p_in_use (pl_objects p b)"
    using assms(2) by (auto simp: recycling_def pool_ok_def available_ok_def)
  have sub: "set (push_back ?n a ?av) \<subseteq> insert a (set ?av)" by (rule cb.set_push [OF ok(3)])
  have "distinct (push_back ?n a ?av)"
    unfolding cb.push_latest [OF ok(3)] using ok(1) by (intro distinct_drop) auto
  moreover have "length (push_back ?n a ?av) \<le> ?n" using cb.length_push [OF ok(3)] by simp
  moreover have "(pl_objects p a)\<lparr>p_content := content\<rparr> =
      \<lparr>p_recyclable = True, p_in_use = False, p_content = content\<rparr>"
    using ok(5) assms(3) by (cases "pl_objects p a") simp
  ultimately show ?thesis
    using ok sub unfolding recycling_def pool_ok_def available_ok_def assms(1) by auto
qed

lemma recycle_loop_ok:
  assumes "\<And>x. clear x = content" "recycling content as (kept, p)"
  shows "recycling content [] (recycle_loop clear as (kept, p)) \<and>
    pl_capacity (snd (recycle_loop clear as (kept, p))) = pl_capacity p \<and>
    pl_next (snd (recycle_loop clear as (kept, p))) = pl_next p \<and>
    (\<forall>b. p_in_use (pl_objects (snd (recycle_loop clear as (kept, p))) b) = p_in_use (pl_objects p b) \<and>
      (p_in_use (pl_objects p b) \<longrightarrow> pl_objects (snd (recycle_loop clear as (kept, p))) b = pl_objects p b))"
  using assms(2)
proof (induction as arbitrary: kept p)
  case (Cons a as)
  show ?case
  proof (cases "p_in_use (pl_objects p a)")
    case True
    then have "recycling content as (kept @ [a], p)" using Cons.prems by (auto simp: recycling_def)
    from Cons.IH [OF this] True show ?thesis by (simp add: Let_def)
  next
    case False
    from Cons.IH [OF recycling_step [of clear, OF assms(1) Cons.prems False]] False show ?thesis
      by (auto simp: Let_def)
  qed
qed simp

lemma recycle_ok:
  assumes "\<And>x. clear x = content" "pool_ok content p"
  shows "pool_ok content (recycle clear p)" "pl_capacity (recycle clear p) = pl_capacity p"
    "pl_next (recycle clear p) = pl_next p"
    "p_in_use (pl_objects (recycle clear p) b) = p_in_use (pl_objects p b)"
    "p_in_use (pl_objects p b) \<Longrightarrow> pl_objects (recycle clear p) b = pl_objects p b"
proof -
  obtain kept p' where r: "recycle_loop clear (pl_used p) ([], p) = (kept, p')"
    by (cases "recycle_loop clear (pl_used p) ([], p)")
  have "recycling content (pl_used p) ([], p)" using assms(2) by (simp add: recycling_def)
  note ok = recycle_loop_ok [of clear, OF assms(1) this, unfolded r]
  then show "pool_ok content (recycle clear p)" "pl_capacity (recycle clear p) = pl_capacity p"
    "pl_next (recycle clear p) = pl_next p"
    "p_in_use (pl_objects (recycle clear p) b) = p_in_use (pl_objects p b)"
    "p_in_use (pl_objects p b) \<Longrightarrow> pl_objects (recycle clear p) b = pl_objects p b"
    by (simp_all add: recycle_def r recycling_def)
qed

lemma fit_ok:
  assumes "pool_ok content p"
  shows "pool_ok content (fit n p)" "pl_capacity (fit n p) = pl_capacity p" "pl_next (fit n p) = pl_next p"
    "pl_objects (fit n p) = pl_objects p" "pl_used (fit n p) = pl_used p"
    "set (pl_available (fit n p)) \<subseteq> set (pl_available p)"
  using assms set_take_subset [of n "pl_available p"]
  by (auto simp: fit_def pool_ok_def available_ok_def dest: in_set_takeD)

section \<open>Refilling\<close>

lemma refill_fits:
  assumes "pool_ok content p" "limit \<le> pl_capacity p"
  shows "\<exists>p'. refill content limit p = Some p' \<and> pool_ok content p' \<and>
    limit \<le> length (pl_available p') \<and> pl_capacity p' = pl_capacity p \<and> pl_used p' = pl_used p \<and>
    pl_next p \<le> pl_next p' \<and> (\<forall>b < pl_next p. pl_objects p' b = pl_objects p b) \<and>
    set (pl_available p') \<subseteq> set (pl_available p) \<union> {pl_next p ..}"
  using assms
proof (induction "limit - length (pl_available p)" arbitrary: p)
  case 0
  then show ?case by (intro exI [of _ p]) (simp add: refill.simps)
next
  case (Suc d)
  let ?q = "add_object content p"
  have lt: "length (pl_available p) < limit" using Suc.hyps(2) by simp
  then have av: "pl_available ?q = pl_available p @ [pl_next p]"
    using Suc.prems(2) add_object_ok(4) [OF Suc.prems(1)] by (simp add: cb.push_below)
  have "d = limit - length (pl_available ?q)" using Suc.hyps(2) by (simp add: av)
  from Suc.hyps(1) [OF this add_object_ok(1) [OF Suc.prems(1)]] Suc.prems
  obtain p' where p': "refill content limit ?q = Some p'" "pool_ok content p'"
    "limit \<le> length (pl_available p')" "pl_capacity p' = pl_capacity p" "pl_used p' = pl_used p"
    "Suc (pl_next p) \<le> pl_next p'" "\<forall>b < Suc (pl_next p). pl_objects p' b = pl_objects ?q b"
    "set (pl_available p') \<subseteq> set (pl_available ?q) \<union> {Suc (pl_next p) ..}"
    by (auto simp: add_object_def)
  have "pl_objects ?q b = pl_objects p b" if "b < pl_next p" for b using that by (simp add: add_object_def)
  moreover have "refill content limit p = Some p'" using p'(1) lt by (simp add: refill.simps)
  ultimately show ?case using p'(2-) av by (intro exI [of _ p']) auto
qed

lemma refill_never_ends:
  assumes "refill content limit p = Some r" "length (pl_available p) \<le> pl_capacity p"
  shows "limit \<le> pl_capacity p"
proof -
  let ?P = "\<lambda>limit p. length (pl_available p) \<le> pl_capacity p \<longrightarrow> limit \<le> pl_capacity p"
  have "?P limit p"
  proof (rule refill.raw_induct [where P = "\<lambda>_ limit p _. ?P limit p", OF _ assms(1)])
    fix f content limit and p r :: "'a pool"
    assume IH: "\<And>c n q y. f c n q = Some y \<Longrightarrow> ?P n q"
      and f: "(if length (pl_available p) < limit then f content limit (add_object content p) else Some p) = Some r"
    show "?P limit p"
    proof (cases "length (pl_available p) < limit")
      case True
      then have "f content limit (add_object content p) = Some r" using f by simp
      from IH [OF this] show ?thesis
        using cb.length_push [of "pl_available p" "pl_capacity p"] by (auto simp: add_object_def)
    qed simp
  qed
  then show ?thesis using assms(2) by simp
qed

section \<open>Taking an object\<close>

lemma take_one_ok:
  assumes clear: "\<And>x. clear x = content" and "pool_ok content p" "0 < limit" "limit \<le> pl_capacity p"
  obtains a p' where "take_one content clear limit p = Some (Inr (a, p'))" "pool_ok content p'"
    "pl_capacity p' = pl_capacity p" "pl_next p \<le> pl_next p'" "a < pl_next p'"
    "pl_objects p' a = \<lparr>p_recyclable = True, p_in_use = True, p_content = content\<rparr>"
    "a < pl_next p \<Longrightarrow> \<not> p_in_use (pl_objects p a)"
    "\<And>b. b < pl_next p \<Longrightarrow> p_in_use (pl_objects p b) \<Longrightarrow> pl_objects p' b = pl_objects p b"
proof -
  define p1 where "p1 = fit pool_size (recycle clear p)"
  note rec = recycle_ok [of clear, OF clear assms(2)]
  note fit = fit_ok [OF rec(1), of pool_size, folded p1_def]
  define p2 where "p2 = (if pl_available p1 = [] then the (refill content limit p1) else p1)"
  have refill: "\<exists>p'. refill content limit p1 = Some p' \<and> pool_ok content p' \<and>
    limit \<le> length (pl_available p') \<and> pl_capacity p' = pl_capacity p1 \<and> pl_used p' = pl_used p1 \<and>
    pl_next p1 \<le> pl_next p' \<and> (\<forall>b < pl_next p1. pl_objects p' b = pl_objects p1 b) \<and>
    set (pl_available p') \<subseteq> set (pl_available p1) \<union> {pl_next p1 ..}"
    using fit rec assms(4) by (intro refill_fits) simp_all
  have p2: "(if pl_available p1 = [] then refill content limit p1 else Some p1) = Some p2"
    "pool_ok content p2" "pl_available p2 \<noteq> []" "pl_capacity p2 = pl_capacity p" "pl_next p \<le> pl_next p2"
    "\<And>b. b < pl_next p \<Longrightarrow> pl_objects p2 b = pl_objects (recycle clear p) b"
    using refill fit rec assms(3) unfolding p2_def by auto
  define a where "a = last (pl_available p2)"
  define p' where "p' = p2\<lparr>pl_objects := (pl_objects p2)(a := (pl_objects p2 a)\<lparr>p_in_use := True\<rparr>),
      pl_used := push_back (pl_capacity p2) a (pl_used p2), pl_available := butlast (pl_available p2)\<rparr>"
  have take: "take_one content clear limit p = Some (Inr (a, p'))"
    unfolding take_one_def Let_def p1_def [symmetric] p2(1) using p2(3) by (simp add: a_def p'_def)
  have split: "pl_available p2 = butlast (pl_available p2) @ [a]" using p2(3) by (simp add: a_def)
  have in_av: "a \<in> set (pl_available p2)" using p2(3) by (simp add: a_def)
  then have a: "a < pl_next p2" "pl_objects p2 a = \<lparr>p_recyclable = True, p_in_use = False, p_content = content\<rparr>"
    using p2(2) by (auto simp: pool_ok_def available_ok_def)
  have le: "length (pl_used p2) \<le> pl_capacity p2" using p2(2) by (simp add: pool_ok_def)
  have ok: "pool_ok content p'"
  proof -
    have d: "distinct (butlast (pl_available p2) @ [a] @ pl_used p2)"
      using p2(2) split unfolding pool_ok_def by (metis append_assoc)
    have sub: "set (push_back (pl_capacity p2) a (pl_used p2)) \<subseteq> insert a (set (pl_used p2))"
      by (rule cb.set_push [OF le])
    have "distinct (push_back (pl_capacity p2) a (pl_used p2))"
      unfolding cb.push_latest [OF le] using d by (intro distinct_drop) auto
    moreover have "length (push_back (pl_capacity p2) a (pl_used p2)) \<le> pl_capacity p2"
      using cb.length_push [OF le] by simp
    ultimately show ?thesis
      using p2(2) d sub a in_set_butlastD [of _ "pl_available p2"]
      unfolding pool_ok_def available_ok_def p'_def by auto
  qed
  show thesis
  proof (rule that [OF take ok])
    show "pl_objects p' a = \<lparr>p_recyclable = True, p_in_use = True, p_content = content\<rparr>"
      using a(2) by (simp add: p'_def)
    show free: "\<not> p_in_use (pl_objects p a)" if "a < pl_next p"
      using a(2) p2(6) [OF that] rec(4) [of a] by simp
    show "pl_objects p' b = pl_objects p b" if "b < pl_next p" "p_in_use (pl_objects p b)" for b
      using free p2(6) [OF that(1)] rec(5) [OF that(2)] that by (cases "b = a") (simp_all add: p'_def)
  qed (use p2 a(1) in \<open>simp_all add: p'_def\<close>)
qed

text \<open>C37: A prepared pool always hands out an object, and never one that is in use: the object is empty,
  recyclable, not in anybody's hands, and marked as in use; the objects in use are not touched, so an answer
  being written is not overwritten by the next request.\<close>

theorem take_one_safe:
  assumes "\<And>x. clear x = content" "pool_ok content p" "0 < limit" "limit \<le> pl_capacity p"
  shows "\<exists>a p'. take_one content clear limit p = Some (Inr (a, p')) \<and> pool_ok content p' \<and>
    pl_objects p' a = \<lparr>p_recyclable = True, p_in_use = True, p_content = content\<rparr> \<and>
    (a < pl_next p \<longrightarrow> \<not> p_in_use (pl_objects p a)) \<and>
    (\<forall>b < pl_next p. p_in_use (pl_objects p b) \<longrightarrow> pl_objects p' b = pl_objects p b)"
  using take_one_ok [of clear, OF assms] by metis

text \<open>A thread that has not called \<open>prepares\<close> never gets an object: the refill pushes into a buffer of
  capacity 0 and loops for ever. More generally a call that has to refill returns only when the capacity
  is at least the number of objects wanted.\<close>

lemma take_one_needs_capacity:
  assumes "pool_ok content p" "pl_available p = []" "pl_used p = []"
  shows "take_one content clear limit p = None \<longleftrightarrow> pl_capacity p < limit"
proof -
  have p1: "fit pool_size (recycle clear p) = p"
    using assms(2,3) by (simp add: recycle_def fit_def)
  have "refill content limit p = None \<longleftrightarrow> pl_capacity p < limit"
  proof
    assume "refill content limit p = None"
    then show "pl_capacity p < limit"
      using refill_fits [OF assms(1), of limit] by fastforce
  next
    assume "pl_capacity p < limit"
    then show "refill content limit p = None"
      using refill_never_ends [of content limit p] assms(2) by (cases "refill content limit p") auto
  qed
  then show ?thesis
    by (auto simp: take_one_def Let_def p1 assms(2) split: option.split)
qed

text \<open>\<open>app::boot\<close> prepares both pools of a thread before it runs handlers: its capacity is then twice the
  number that a refill wants, so the first call of \<open>take_one\<close> on the thread returns.\<close>

definition boot :: "message pool \<times> bytes pool" where
  "boot = (prepares new_message pool_size (new_pool new_message), prepares [] pool_size (new_pool []))"

lemma prepared_take_one:
  assumes "\<And>x. clear x = content" "0 < limit" "limit \<le> initial * 2"
  shows "\<exists>a p. take_one content clear limit (prepares content initial (new_pool content)) = Some (Inr (a, p))"
proof -
  have "limit \<le> pl_capacity (prepares content initial (new_pool content))"
    using assms(3) by (simp add: prepares_capacity)
  then obtain a p where "take_one content clear limit (prepares content initial (new_pool content)) = Some (Inr (a, p))"
    by (rule take_one_ok [of clear, OF assms(1) prepares_ok assms(2)])
  then show ?thesis by blast
qed

lemma booted_take_one:
  "\<exists>a p. messages_take_one (fst boot) = Some (Inr (a, p))"
  "\<exists>b q. buffers_take_one (snd boot) = Some (Inr (b, q))"
  unfolding messages_take_one_def buffers_take_one_def boot_def fst_conv snd_conv
  by (rule prepared_take_one; simp add: clear_message_def clear_bytes_def pool_size_def)+

section \<open>Buffers are never used again\<close>

text \<open>What happens to the pool of buffers: an entry is built, an entry is destroyed. The numbers of the
  buffers handed out are collected.\<close>

datatype buffer_op = Build_entry | Destroy_entry nat

fun buffer_step :: "nat \<Rightarrow> buffer_op \<Rightarrow> bytes pool \<times> nat list \<Rightarrow> bytes pool \<times> nat list" where
  "buffer_step limit Build_entry (p, taken) =
     (case take_one [] clear_bytes limit p of
        Some (Inr (a, p')) \<Rightarrow> (p', taken @ [a])
      | _ \<Rightarrow> (p, taken))"
| "buffer_step limit (Destroy_entry a) (p, taken) = (if a \<in> set taken then destroy_entry a p else p, taken)"

definition buffers_ok :: "bytes pool \<times> nat list \<Rightarrow> bool" where
  "buffers_ok = (\<lambda>(p, taken). pool_ok [] p \<and> distinct taken \<and>
     (\<forall>a \<in> set taken. a < pl_next p \<and> p_in_use (pl_objects p a)))"

lemma destroy_entry_ok:
  assumes "pool_ok content p"
  shows "pool_ok content (destroy_entry a p)" "pl_capacity (destroy_entry a p) = pl_capacity p"
    "pl_next (destroy_entry a p) = pl_next p"
    "p_in_use (pl_objects (destroy_entry a p) b) = p_in_use (pl_objects p b)"
proof -
  have "(pl_objects p b)\<lparr>p_recyclable := True\<rparr> = pl_objects p b" if "b \<in> set (pl_available p)" for b
    using assms that by (simp add: pool_ok_def available_ok_def)
  then show "pool_ok content (destroy_entry a p)"
    using assms by (auto simp: pool_ok_def available_ok_def destroy_entry_def)
qed (simp_all add: destroy_entry_def)

lemma buffer_step_ok:
  assumes "buffers_ok (p, taken)" "0 < limit" "limit \<le> pl_capacity p"
  obtains p' taken' where "buffer_step limit e (p, taken) = (p', taken')" "buffers_ok (p', taken')"
    "pl_capacity p' = pl_capacity p"
proof (cases e)
  case Build_entry
  have ok: "pool_ok [] p" using assms(1) by (simp add: buffers_ok_def)
  obtain a p' where a: "take_one [] clear_bytes limit p = Some (Inr (a, p'))" "pool_ok [] p'"
    "pl_capacity p' = pl_capacity p" "pl_next p \<le> pl_next p'" "a < pl_next p'"
    "pl_objects p' a = \<lparr>p_recyclable = True, p_in_use = True, p_content = []\<rparr>"
    "a < pl_next p \<Longrightarrow> \<not> p_in_use (pl_objects p a)"
    "\<And>b. b < pl_next p \<Longrightarrow> p_in_use (pl_objects p b) \<Longrightarrow> pl_objects p' b = pl_objects p b"
    using take_one_ok [of clear_bytes "[]", OF _ ok assms(2,3)] by (auto simp: clear_bytes_def)
  have "b < pl_next p' \<and> p_in_use (pl_objects p' b)" if "b \<in> set (taken @ [a])" for b
    using that assms(1) a(4-6,8) by (fastforce simp: buffers_ok_def)
  moreover have "a \<notin> set taken" using assms(1) a(7) by (auto simp: buffers_ok_def)
  ultimately show thesis
    using that [of p' "taken @ [a]"] assms(1) a(1-3) Build_entry by (simp add: buffers_ok_def)
next
  case (Destroy_entry a)
  have ok: "pool_ok [] p" using assms(1) by (simp add: buffers_ok_def)
  show thesis
    using that [of "if a \<in> set taken then destroy_entry a p else p" taken] Destroy_entry assms(1)
      destroy_entry_ok [OF ok] by (auto simp: buffers_ok_def)
qed

lemma buffer_run_ok:
  assumes "buffers_ok (p, taken)" "0 < limit" "limit \<le> pl_capacity p"
  shows "buffers_ok (fold (buffer_step limit) es (p, taken))"
  using assms
proof (induction es arbitrary: p taken)
  case (Cons e es)
  obtain p' taken' where "buffer_step limit e (p, taken) = (p', taken')" "buffers_ok (p', taken')"
    "pl_capacity p' = pl_capacity p" using buffer_step_ok [OF Cons.prems] .
  then show ?case using Cons.IH [of p' taken'] Cons.prems by simp
qed simp

text \<open>The buffers of entries are never used again. Destroying an entry sets \<open>recyclable_\<close> and leaves
  \<open>in_use_\<close>, which \<open>recycle\<close> looks at: whatever entries are built and destroyed, no buffer is handed out
  twice, and every buffer ever handed out stays marked as in use.\<close>

theorem buffers_never_reused:
  assumes "0 < limit" "limit \<le> initial * 2"
  shows "\<exists>p taken. fold (buffer_step limit) es (prepares [] initial (new_pool []), []) = (p, taken) \<and>
    distinct taken \<and> (\<forall>a \<in> set taken. p_in_use (pl_objects p a))"
proof -
  let ?p = "prepares [] initial (new_pool []) :: bytes pool"
  have "buffers_ok (?p, [])" "limit \<le> pl_capacity ?p"
    using assms by (simp_all add: buffers_ok_def prepares_ok prepares_capacity)
  from buffer_run_ok [OF this(1) assms(1) this(2), of es] show ?thesis
    by (cases "fold (buffer_step limit) es (?p, [])") (auto simp: buffers_ok_def)
qed

section \<open>Witnesses\<close>

theorem take_one_safe_witness:
  "\<exists>a p'. take_one new_message clear_message 1 (prepares new_message 2 (new_pool new_message)) = Some (Inr (a, p')) \<and>
     pl_objects p' a = \<lparr>p_recyclable = True, p_in_use = True, p_content = new_message\<rparr>"
proof -
  have "1 \<le> pl_capacity (prepares new_message 2 (new_pool new_message))"
    by (simp add: prepares_capacity)
  from take_one_safe [of clear_message, OF _ prepares_ok _ this] show ?thesis
    by (auto simp: clear_message_def)
qed

theorem buffers_never_reused_witness:
  "\<exists>p taken. fold (buffer_step 1) [Build_entry, Destroy_entry 0, Build_entry] (prepares [] 1 (new_pool []), []) = (p, taken) \<and>
     distinct taken"
  using buffers_never_reused [of 1 1 "[Build_entry, Destroy_entry 0, Build_entry]"] by auto

end
