(* ===== verification/Entry_Buffers.thy ===== *)
theory Entry_Buffers
  imports Pools Storage
begin

text \<open>
  \<open>entry.hpp\<close> and \<open>entry.cpp\<close> with the buffers as they are: an entry holds a reference to a buffer of the
  pool, which its constructor takes and its destructor marks, and which copies and moves share. The rest of
  the development keeps the bytes in the entry, by value; the refinement below is what allows it.
\<close>

section \<open>Entries with a reference\<close>

record (overloaded) 'v entry_object =
  eo_type :: entry_types
  eo_counter :: "'v::len word"
  eo_buffer :: nat
  eo_ttl_type :: ttl_types
  eo_expires_at :: u64

definition write_buffer :: "nat \<Rightarrow> bytes \<Rightarrow> bytes pool \<Rightarrow> bytes pool" where
  "write_buffer a bs p = p\<lparr>pl_objects := (pl_objects p)(a := (pl_objects p a)\<lparr>p_content := bs\<rparr>)\<rparr>"

text \<open>The constructor; \<open>None\<close> when \<open>take_one\<close> does not return.\<close>

definition construct_entry ::
  "('v::len, 'x) protocol_scheme \<Rightarrow> entry_types \<Rightarrow> bytes \<Rightarrow> ttl_types \<Rightarrow> u64 \<Rightarrow> bytes pool
     \<Rightarrow> ('v entry_object \<times> bytes pool) res option" where
  "construct_entry E type value ttl_type expires_at p =
     map_option (\<lambda>r. bind_res r (\<lambda>(a, p').
       if type = Raw
       then Inr (\<lparr>eo_type = type, eo_counter = 0, eo_buffer = a, eo_ttl_type = ttl_type,
              eo_expires_at = expires_at\<rparr>, write_buffer a value p')
       else bind_res (read_value E value) (\<lambda>parsed.
              Inr (\<lparr>eo_type = type, eo_counter = parsed, eo_buffer = a, eo_ttl_type = ttl_type,
                eo_expires_at = expires_at\<rparr>, p'))))
       (buffers_take_one p)"

text \<open>The copy and the move constructor have the same body: the other entry keeps its reference.\<close>

definition copy_entry :: "'v::len entry_object \<Rightarrow> 'v entry_object" where
  "copy_entry other = \<lparr>eo_type = eo_type other, eo_counter = eo_counter other, eo_buffer = eo_buffer other,
     eo_ttl_type = eo_ttl_type other, eo_expires_at = eo_expires_at other\<rparr>"

definition move_entry :: "'v::len entry_object \<Rightarrow> 'v entry_object" where
  "move_entry other = \<lparr>eo_type = eo_type other, eo_counter = eo_counter other, eo_buffer = eo_buffer other,
     eo_ttl_type = eo_ttl_type other, eo_expires_at = eo_expires_at other\<rparr>"

text \<open>The assignments; \<open>self\<close> says that an entry is assigned to itself.\<close>

definition move_assign_entry :: "bool \<Rightarrow> 'v::len entry_object \<Rightarrow> 'v entry_object \<Rightarrow> 'v entry_object" where
  "move_assign_entry self this other = (if \<not> self
     then this\<lparr>eo_type := eo_type other, eo_buffer := eo_buffer other, eo_ttl_type := eo_ttl_type other,
       eo_expires_at := eo_expires_at other, eo_counter := eo_counter other\<rparr>
     else this)"

definition copy_assign_entry :: "bool \<Rightarrow> 'v::len entry_object \<Rightarrow> 'v entry_object \<Rightarrow> 'v entry_object" where
  "copy_assign_entry self this other = (if \<not> self
     then this\<lparr>eo_type := eo_type other, eo_buffer := eo_buffer other, eo_ttl_type := eo_ttl_type other,
       eo_expires_at := eo_expires_at other, eo_counter := eo_counter other\<rparr>
     else this)"

definition update_object :: "bytes \<Rightarrow> 'v::len entry_object \<Rightarrow> bytes pool \<Rightarrow> bytes pool" where
  "update_object value x p = write_buffer (eo_buffer x) value p"

definition destroy_object :: "'v::len entry_object \<Rightarrow> bytes pool \<Rightarrow> bytes pool" where
  "destroy_object x p = destroy_entry (eo_buffer x) p"

section \<open>The entry by value\<close>

definition value_of :: "bytes pool \<Rightarrow> 'v::len entry_object \<Rightarrow> 'v entry" where
  "value_of p x = \<lparr>e_type = eo_type x, e_counter = eo_counter x, e_buffer = p_content (pl_objects p (eo_buffer x)),
     e_ttl_type = eo_ttl_type x, e_expires_at = eo_expires_at x\<rparr>"

text \<open>The entries that exist have a buffer each, which is theirs alone.\<close>

definition owns_buffers :: "bytes pool \<Rightarrow> 'v::len entry_object list \<Rightarrow> bool" where
  "owns_buffers p xs \<longleftrightarrow> pool_ok [] p \<and> pool_size \<le> pl_capacity p \<and> distinct (map eo_buffer xs) \<and>
     (\<forall>x \<in> set xs. eo_buffer x < pl_next p \<and> p_in_use (pl_objects p (eo_buffer x)))"

lemma write_buffer_fields [simp]:
  "pl_next (write_buffer a bs p) = pl_next p" "pl_capacity (write_buffer a bs p) = pl_capacity p"
  "p_in_use (pl_objects (write_buffer a bs p) b) = p_in_use (pl_objects p b)"
  "p_content (pl_objects (write_buffer a bs p) b) = (if b = a then bs else p_content (pl_objects p b))"
  by (simp_all add: write_buffer_def)

lemma write_buffer_ok:
  assumes "pool_ok content p" "p_in_use (pl_objects p a)"
  shows "pool_ok content (write_buffer a bs p)"
proof -
  have "a \<notin> set (pl_available p)" using assms by (auto simp: pool_ok_def available_ok_def)
  then show ?thesis using assms(1) by (auto simp: pool_ok_def available_ok_def write_buffer_def)
qed

lemma destroy_entry_content [simp]:
  "p_content (pl_objects (destroy_entry a p) b) = p_content (pl_objects p b)"
  by (simp add: destroy_entry_def)

lemma value_of_other: "eo_buffer x \<noteq> a \<Longrightarrow> value_of (write_buffer a bs p) x = value_of p x"
  by (simp add: value_of_def)

text \<open>Building an entry gives it a buffer of its own and leaves every other entry as it is.\<close>

lemma construct_entry_ok:
  fixes E :: "('v::len, 'x) protocol_scheme"
  assumes "owns_buffers p (xs :: 'v entry_object list)" "make_entry E type value ttl_type ex = Inr e"
  obtains x p' where "construct_entry E type value ttl_type ex p = Some (Inr (x, p'))" "owns_buffers p' (xs @ [x])"
    "value_of p' x = e" "map (value_of p') xs = map (value_of p) xs"
proof -
  have ok: "pool_ok [] p" "pool_size \<le> pl_capacity p" "0 < pool_size" using assms(1)
    by (simp_all add: owns_buffers_def pool_size_def)
  obtain a p' where a: "buffers_take_one p = Some (Inr (a, p'))" "pool_ok [] p'" "pl_capacity p' = pl_capacity p"
    "pl_next p \<le> pl_next p'" "a < pl_next p'" "pl_objects p' a = \<lparr>p_recyclable = True, p_in_use = True, p_content = []\<rparr>"
    "a < pl_next p \<Longrightarrow> \<not> p_in_use (pl_objects p a)"
    "\<And>b. b < pl_next p \<Longrightarrow> p_in_use (pl_objects p b) \<Longrightarrow> pl_objects p' b = pl_objects p b"
    using take_one_ok [of clear_bytes "[]", OF _ ok(1,3,2)] unfolding buffers_take_one_def clear_bytes_def by metis
  have others: "eo_buffer x \<noteq> a \<and> eo_buffer x < pl_next p' \<and> pl_objects p' (eo_buffer x) = pl_objects p (eo_buffer x)"
    if "x \<in> set xs" for x
    using that assms(1) a(4,7,8) by (fastforce simp: owns_buffers_def)
  define p'' where "p'' = (if type = Raw then write_buffer a value p' else p')"
  define x where "x = \<lparr>eo_type = type, eo_counter = e_counter e, eo_buffer = a, eo_ttl_type = ttl_type, eo_expires_at = ex\<rparr>"
  have "construct_entry E type value ttl_type ex p = Some (Inr (x, p''))" "value_of p'' x = e"
    using assms(2) a(1,6)
    by (auto simp: construct_entry_def make_entry_def x_def p''_def value_of_def res_simps split: if_splits)
  moreover have "owns_buffers p'' (xs @ [x])"
    using assms(1) a(2,3,5,6) others write_buffer_ok [OF a(2), of a "value"]
    by (auto simp: owns_buffers_def p''_def x_def)
  moreover have "map (value_of p'') xs = map (value_of p) xs"
    using others by (auto simp: p''_def value_of_other) (simp_all add: value_of_def)
  ultimately show thesis using that by blast
qed

section \<open>The entries of a run\<close>

text \<open>What happens to the entries: one is built, one is rewritten, one is destroyed. The numbers are positions
  in the list of those that exist.\<close>

datatype entry_op = Build entry_types bytes ttl_types u64 | Rewrite nat bytes | Destroy nat

definition drop_at :: "nat \<Rightarrow> 'a list \<Rightarrow> 'a list" where
  "drop_at i xs = take i xs @ drop (Suc i) xs"

fun object_step ::
  "('v::len, 'x) protocol_scheme \<Rightarrow> entry_op \<Rightarrow> bytes pool \<times> 'v entry_object list \<Rightarrow> bytes pool \<times> 'v entry_object list" where
  "object_step E (Build type v t ex) (p, xs) =
     (case construct_entry E type v t ex p of Some (Inr (x, p')) \<Rightarrow> (p', xs @ [x]) | _ \<Rightarrow> (p, xs))"
| "object_step E (Rewrite i v) (p, xs) = (if i < length xs then update_object v (xs ! i) p else p, xs)"
| "object_step E (Destroy i) (p, xs) =
     (if i < length xs then (destroy_object (xs ! i) p, drop_at i xs) else (p, xs))"

fun value_step :: "('v::len, 'x) protocol_scheme \<Rightarrow> entry_op \<Rightarrow> 'v entry list \<Rightarrow> 'v entry list" where
  "value_step E (Build type v t ex) es = (case make_entry E type v t ex of Inr e \<Rightarrow> es @ [e] | Inl _ \<Rightarrow> es)"
| "value_step E (Rewrite i v) es = (if i < length es then es[i := update_buffer v (es ! i)] else es)"
| "value_step E (Destroy i) es = (if i < length es then drop_at i es else es)"

lemma drop_at_map: "map f (drop_at i xs) = drop_at i (map f xs)"
  by (simp add: drop_at_def take_map drop_map)

lemma set_drop_at: "set (drop_at i xs) \<subseteq> set xs"
  using set_take_subset set_drop_subset by (fastforce simp: drop_at_def)

lemma distinct_drop_at: "distinct xs \<Longrightarrow> distinct (drop_at i xs)"
  using set_take_disj_set_drop_if_distinct [of xs i "Suc i"] by (simp add: drop_at_def)

lemma construct_entry_Inl:
  assumes "make_entry E type v t ex = Inl err"
  shows "construct_entry E type v t ex p \<noteq> Some (Inr (x, p'))"
  using assms
  by (auto simp: construct_entry_def make_entry_def read_value_def res_simps split: if_splits)

lemma object_step_refines:
  fixes E :: "('v::len, 'x) protocol_scheme"
  assumes "owns_buffers p xs"
  obtains p' xs' where "object_step E op (p, xs) = (p', xs')" "owns_buffers p' xs'"
    "map (value_of p') xs' = value_step E op (map (value_of p) xs)"
proof (cases op)
  case (Build ty v t ex)
  show thesis
  proof (cases "make_entry E ty v t ex")
    case (Inl err)
    then have "object_step E op (p, xs) = (p, xs)"
      using Build construct_entry_Inl [OF Inl] by (auto split: option.split sum.split)
    then show thesis using that assms Build Inl by simp
  next
    case (Inr e)
    from construct_entry_ok [OF assms Inr] obtain x p' where
      "construct_entry E ty v t ex p = Some (Inr (x, p'))" "owns_buffers p' (xs @ [x])"
      "value_of p' x = e" "map (value_of p') xs = map (value_of p) xs" .
    then show thesis using that [of p' "xs @ [x]"] Build Inr by simp
  qed
next
  case (Rewrite i v)
  show thesis
  proof (cases "i < length xs")
    case True
    let ?p = "write_buffer (eo_buffer (xs ! i)) v p"
    have "owns_buffers ?p xs"
      using assms True write_buffer_ok [of "[]" p "eo_buffer (xs ! i)" v] by (simp add: owns_buffers_def)
    moreover have "map (value_of ?p) xs = (map (value_of p) xs)[i := update_buffer v (value_of p (xs ! i))]"
    proof (rule nth_equalityI)
      fix j assume j: "j < length (map (value_of ?p) xs)"
      have "eo_buffer (xs ! j) \<noteq> eo_buffer (xs ! i)" if "j \<noteq> i"
        using assms that True j by (simp add: owns_buffers_def distinct_conv_nth)
      then show "map (value_of ?p) xs ! j = (map (value_of p) xs)[i := update_buffer v (value_of p (xs ! i))] ! j"
        using True j by (cases "j = i") (simp_all add: value_of_other, simp add: value_of_def update_buffer_def)
    qed simp
    ultimately show thesis using that [of ?p xs] Rewrite True by (simp add: update_object_def)
  qed (use that assms Rewrite in simp)
next
  case (Destroy i)
  show thesis
  proof (cases "i < length xs")
    case True
    let ?p = "destroy_entry (eo_buffer (xs ! i)) p" and ?xs = "drop_at i xs"
    have ok: "pool_ok [] p" using assms by (simp add: owns_buffers_def)
    have "distinct (map eo_buffer ?xs)"
      using assms distinct_drop_at [of "map eo_buffer xs" i] by (simp add: owns_buffers_def drop_at_map)
    then have "owns_buffers ?p ?xs"
      using assms destroy_entry_ok [OF ok] set_drop_at [of i xs] by (auto simp: owns_buffers_def)
    moreover have "map (value_of ?p) ?xs = drop_at i (map (value_of p) xs)"
      by (simp add: value_of_def drop_at_map [symmetric])
    ultimately show thesis using that [of ?p ?xs] Destroy True by (simp add: destroy_object_def)
  qed (use that assms Destroy in simp)
qed

lemma object_run_refines:
  fixes E :: "('v::len, 'x) protocol_scheme"
  assumes "owns_buffers p xs"
  shows "\<exists>p' xs'. fold (object_step E) ops (p, xs) = (p', xs') \<and> owns_buffers p' xs' \<and>
    map (value_of p') xs' = fold (value_step E) ops (map (value_of p) xs)"
  using assms
proof (induction ops arbitrary: p xs)
  case (Cons op ops)
  obtain p1 xs1 where "object_step E op (p, xs) = (p1, xs1)" "owns_buffers p1 xs1"
    "map (value_of p1) xs1 = value_step E op (map (value_of p) xs)" using object_step_refines [OF Cons.prems] .
  with Cons.IH [of p1 xs1] show ?case by simp
qed simp

text \<open>C38: An entry's bytes are its own. On a thread that has prepared its pools, whatever entries are built,
  rewritten and destroyed, no two entries that exist share a buffer of the pool, and the entries read
  through their references are those of the model that keeps the bytes in the entry: rewriting or
  destroying one never changes another.\<close>

theorem entries_by_value:
  fixes E :: "('v::len, 'x) protocol_scheme"
  shows "\<exists>p xs. fold (object_step E) ops (snd boot, []) = (p, xs) \<and> distinct (map eo_buffer xs) \<and>
    map (value_of p) xs = fold (value_step E) ops []"
proof -
  have "owns_buffers (snd boot) ([] :: 'v entry_object list)"
    by (simp add: owns_buffers_def boot_def prepares_capacity prepares_ok)
  from object_run_refines [OF this, of E ops] show ?thesis by (auto simp: owns_buffers_def)
qed

section \<open>Copies share the buffer\<close>

text \<open>A copied or moved-to entry is equal to the other one, and they share the buffer: rewriting one
  rewrites the other, and destroying the one moved from marks the buffer of the other. Nothing in
  the program copies or moves an entry once it is stored.\<close>

lemma copies_are_equal:
  "value_of p (copy_entry x) = value_of p x" "value_of p (move_entry x) = value_of p x"
  "value_of p (copy_assign_entry False y x) = value_of p x" "copy_assign_entry True y x = y"
  "value_of p (move_assign_entry False y x) = value_of p x" "move_assign_entry True y x = y"
  by (simp_all add: value_of_def copy_entry_def move_entry_def copy_assign_entry_def move_assign_entry_def)

theorem copies_alias:
  "value_of (update_object v (copy_entry x) p) x = update_buffer v (value_of p x)"
  "destroy_object (move_entry x) p = destroy_object x p"
  by (simp_all add: value_of_def copy_entry_def move_entry_def update_object_def destroy_object_def update_buffer_def)

end
