(* ===== verification/Handler_Memory.thy ===== *)
theory Handler_Memory
  imports Main
begin

text \<open>
  \<open>custom_allocator.hpp\<close>: the memory for the handlers of a connection. One slot of 81920 bytes serves
  the handler that comes first; another handler outstanding at the same time gets memory from
  \<open>operator new\<close>, whose blocks are numbered in the order in which they are obtained.
\<close>

datatype pointer = Storage_slot | Heap nat

record handler_memory =
  hm_in_use :: bool
  hm_heap :: nat

definition new_handler_memory :: handler_memory where
  "new_handler_memory = \<lparr>hm_in_use = False, hm_heap = 0\<rparr>"

definition storage_size :: nat where "storage_size = 81920"

definition allocate :: "nat \<Rightarrow> handler_memory \<Rightarrow> pointer \<times> handler_memory" where
  "allocate sz m =
     (if \<not> hm_in_use m \<and> sz \<le> storage_size then (Storage_slot, m\<lparr>hm_in_use := True\<rparr>)
      else (Heap (hm_heap m), m\<lparr>hm_heap := Suc (hm_heap m)\<rparr>))"

definition deallocate :: "pointer \<Rightarrow> handler_memory \<Rightarrow> handler_memory" where
  "deallocate p m = (if p = Storage_slot then m\<lparr>hm_in_use := False\<rparr> else m)"

text \<open>\<open>custom_allocator<T>\<close>: room for \<open>n\<close> objects of \<open>sizeof(T)\<close> bytes.\<close>

definition allocator_allocate :: "nat \<Rightarrow> nat \<Rightarrow> handler_memory \<Rightarrow> pointer \<times> handler_memory" where
  "allocator_allocate size_of_T n m = allocate (size_of_T * n) m"

definition allocator_deallocate :: "pointer \<Rightarrow> handler_memory \<Rightarrow> handler_memory" where
  "allocator_deallocate p m = deallocate p m"

section \<open>Handlers come and go\<close>

text \<open>A handler is created with \<open>n\<close> objects of some size, or one of the live ones is released. The live
  handlers are listed with the bytes each was given.\<close>

datatype memory_event = Create nat nat | Release nat

type_synonym handlers = "(pointer \<times> nat) list"

fun memory_step :: "memory_event \<Rightarrow> handler_memory \<times> handlers \<Rightarrow> handler_memory \<times> handlers" where
  "memory_step (Create sz n) (m, live) =
     (let (p, m') = allocator_allocate sz n m in (m', live @ [(p, sz * n)]))"
| "memory_step (Release i) (m, live) =
     (if i < length live then (allocator_deallocate (fst (live ! i)) m, take i live @ drop (Suc i) live)
      else (m, live))"

fun fits :: "handler_memory \<Rightarrow> pointer \<times> nat \<Rightarrow> bool" where
  "fits m (Storage_slot, n) = (n \<le> storage_size)"
| "fits m (Heap b, n) = (b < hm_heap m)"

lemma fits_mono: "fits m x \<Longrightarrow> hm_heap m \<le> hm_heap m' \<Longrightarrow> fits m' x"
  by (cases "(m, x)" rule: fits.cases) auto

definition memory_ok :: "handler_memory \<times> handlers \<Rightarrow> bool" where
  "memory_ok = (\<lambda>(m, live). distinct (map fst live) \<and> (hm_in_use m \<longleftrightarrow> Storage_slot \<in> fst ` set live) \<and>
     (\<forall>x \<in> set live. fits m x))"

lemma memory_ok_create:
  assumes "memory_ok (m, live)"
  shows "memory_ok (memory_step (Create sz n) (m, live))"
proof -
  obtain p m' where p: "allocate (sz * n) m = (p, m')" by fastforce
  then have m': "fits m' (p, sz * n)" "hm_heap m \<le> hm_heap m'"
    "hm_in_use m' \<longleftrightarrow> hm_in_use m \<or> p = Storage_slot"
    by (auto simp: allocate_def split: if_splits)
  have "Heap (hm_heap m) \<notin> fst ` set live" using assms by (force simp: memory_ok_def)
  then have "p \<notin> fst ` set live"
    using p assms by (auto simp: memory_ok_def allocate_def split: if_splits)
  moreover have "\<forall>x \<in> set live. fits m' x"
    using assms fits_mono [OF _ m'(2)] by (auto simp: memory_ok_def)
  ultimately show ?thesis using assms m' by (auto simp: memory_ok_def allocator_allocate_def p)
qed

lemma memory_ok_release:
  assumes "memory_ok (m, live)"
  shows "memory_ok (memory_step (Release i) (m, live))"
proof (cases "i < length live")
  case True
  define a p b where "a = take i live" and "p = live ! i" and "b = drop (Suc i) live"
  have live: "live = a @ p # b" using True by (simp add: a_def p_def b_def id_take_nth_drop)
  have step: "memory_step (Release i) (m, live) = (deallocate (fst p) m, a @ b)"
    using True by (simp add: a_def p_def b_def allocator_deallocate_def)
  have ok: "distinct (map fst (a @ p # b))" "hm_in_use m \<longleftrightarrow> Storage_slot \<in> fst ` set (a @ p # b)"
    "\<forall>x \<in> set (a @ b). fits m x"
    using assms by (auto simp: memory_ok_def live)
  have "hm_heap (deallocate (fst p) m) = hm_heap m" by (simp add: deallocate_def)
  then have "\<forall>x \<in> set (a @ b). fits (deallocate (fst p) m) x" using ok(3) fits_mono by (metis order_refl)
  moreover have "hm_in_use (deallocate (fst p) m) \<longleftrightarrow> Storage_slot \<in> fst ` set (a @ b)"
    using ok(1,2) by (cases "fst p") (auto simp: deallocate_def)
  ultimately show ?thesis using ok(1) unfolding step by (simp add: memory_ok_def)
qed (use assms in simp)

lemma memory_run_ok: "memory_ok s \<Longrightarrow> memory_ok (fold memory_step es s)"
proof (induction es arbitrary: s)
  case (Cons e es)
  have "memory_ok (memory_step e s)"
    using Cons.prems memory_ok_create memory_ok_release by (cases e; cases s) simp_all
  then show ?case using Cons.IH by simp
qed simp

text \<open>C28: No two live handlers share memory. However handlers are created and released, the slot belongs to
  at most one live handler and only to one that fits in it, \<open>in_use_\<close> says whether it does, and every
  other live handler has a block of its own.\<close>

theorem handlers_share_no_memory:
  "case fold memory_step es (new_handler_memory, []) of (m, live) \<Rightarrow>
     distinct (map fst live) \<and> (hm_in_use m \<longleftrightarrow> Storage_slot \<in> fst ` set live) \<and>
     {sz. (Storage_slot, sz) \<in> set live} \<subseteq> {..storage_size}"
proof -
  have "memory_ok (new_handler_memory, [])" by (simp add: memory_ok_def new_handler_memory_def)
  from memory_run_ok [OF this, of es] show ?thesis by (auto simp: memory_ok_def dest: bspec)
qed

end
