(* ===== verification/Locks.thy ===== *)
theory Locks
  imports State
begin

text \<open>
  The mutexes: \<open>mutex_\<close> of the collector, the one of the subscriptions, and one for each map of connections.
  Each call that locks is given as the sequence of its lock operations, on every branch; threads run such
  sequences interleaved. The theory shows that they never block each other for good, because every call
  locks in one order, and that the collection that calls itself does not.
\<close>

section \<open>Lock operations\<close>

datatype mutex = Collector_mutex | Subscriptions_mutex | Connections_mutex connection_map

text \<open>A \<open>scoped_lock\<close> acquires all its mutexes or waits with none of them (\<open>std::lock\<close>).\<close>

datatype lock_op = Acquire "mutex set" | Release "mutex set"

definition locked :: "mutex set \<Rightarrow> lock_op list \<Rightarrow> lock_op list" where
  "locked ms body = Acquire ms # body @ [Release ms]"

abbreviation on_map :: "connection_map \<Rightarrow> lock_op list" where
  "on_map k \<equiv> locked {Connections_mutex k} []"

section \<open>The calls that lock\<close>

definition join_locks :: "connection_map \<Rightarrow> lock_op list" where
  "join_locks k = on_map k @ locked {Subscriptions_mutex} []"

definition leave_locks :: "connection_map \<Rightarrow> lock_op list" where
  "leave_locks k = locked {Subscriptions_mutex} [] @ on_map k"

definition subscribe_locks :: "lock_op list" where
  "subscribe_locks = locked {Subscriptions_mutex} []"

definition unsubscribe_locks :: "lock_op list" where
  "unsubscribe_locks = locked {Subscriptions_mutex} []"

text \<open>For each subscription of the channel, the maps in which the connection was found.\<close>

definition publish_locks :: "(connection_map \<Rightarrow> bool) list \<Rightarrow> lock_op list" where
  "publish_locks found = concat (map (\<lambda>f.
     concat (map on_map [Tcp, Unix, Agent_unix, Agent_tcp]) @
     concat (map on_map (filter f [Tcp, Unix, Agent_tcp, Agent_unix]))) found)"

text \<open>The lookups, each skipped when the one before has found the connection, and the map that is read.\<close>

definition connection_locks :: "(connection_map \<Rightarrow> bool) \<Rightarrow> lock_op list" where
  "connection_locks found =
     (let in_tcp = found Tcp;
          in_unix = (\<not> in_tcp \<and> found Unix);
          in_agent_unix = (\<not> in_unix \<and> found Agent_unix);
          in_agent_tcp = (\<not> in_agent_unix \<and> found Agent_tcp)
      in on_map Tcp @
         (if \<not> in_tcp then on_map Unix else []) @
         (if \<not> in_unix then on_map Agent_unix else []) @
         (if \<not> in_agent_unix then on_map Agent_tcp else []) @
         (if in_tcp then on_map Tcp else if in_unix then on_map Unix
          else if in_agent_unix then on_map Agent_unix else if in_agent_tcp then on_map Agent_tcp else []))"

definition connections_locks :: "lock_op list" where
  "connections_locks = concat (map on_map [Tcp, Unix, Agent_tcp, Agent_unix])"

definition info_locks :: "lock_op list" where
  "info_locks = locked {Subscriptions_mutex}
     (concat (map on_map [Tcp, Agent_tcp, Unix, Agent_unix]) @ locked (Connections_mutex ` {Tcp, Unix, Agent_tcp, Agent_unix}) [])"

definition snapshot_locks :: "lock_op list" where
  "snapshot_locks = concat (map on_map [Tcp, Unix, Agent_unix, Agent_tcp])"

text \<open>\<open>run\<close> calls \<open>schedule_timer\<close> under the lock, which calls \<open>run\<close> again when the next instant has passed.\<close>

definition run_locks :: "bool \<Rightarrow> lock_op list" where
  "run_locks again = locked {Collector_mutex} (if again then locked {Collector_mutex} [] else [])"

datatype locking_call = Joins connection_map | Leaves connection_map | Subscribes | Unsubscribes
  | Publishes "(connection_map \<Rightarrow> bool) list" | Reads_connection "connection_map \<Rightarrow> bool" | Reads_connections
  | Informs | Takes_snapshot | Collects

text \<open>The lock operations of a call; a collection that finds the next instant passed is not among them.\<close>

fun locks_of :: "locking_call \<Rightarrow> lock_op list" where
  "locks_of (Joins k) = join_locks k"
| "locks_of (Leaves k) = leave_locks k"
| "locks_of Subscribes = subscribe_locks"
| "locks_of Unsubscribes = unsubscribe_locks"
| "locks_of (Publishes found) = publish_locks found"
| "locks_of (Reads_connection found) = connection_locks found"
| "locks_of Reads_connections = connections_locks"
| "locks_of Informs = info_locks"
| "locks_of Takes_snapshot = snapshot_locks"
| "locks_of Collects = run_locks False"

section \<open>Threads\<close>

text \<open>A thread holds mutexes and has operations to do; none of the mutexes is recursive.\<close>

type_synonym thread = "mutex set \<times> lock_op list"

inductive lock_step :: "thread list \<Rightarrow> thread list \<Rightarrow> bool" where
  acquire: "i < length ts \<Longrightarrow> ts ! i = (H, Acquire ms # ops) \<Longrightarrow> (\<forall>t \<in> set ts. fst t \<inter> ms = {}) \<Longrightarrow>
    lock_step ts (ts[i := (H \<union> ms, ops)])"
| release: "i < length ts \<Longrightarrow> ts ! i = (H, Release ms # ops) \<Longrightarrow> lock_step ts (ts[i := (H - ms, ops)])"

definition calling :: "locking_call list \<Rightarrow> thread" where
  "calling cs = ({}, concat (map locks_of cs))"

section \<open>The order of the mutexes\<close>

fun rank :: "mutex \<Rightarrow> nat" where
  "rank Collector_mutex = 0"
| "rank Subscriptions_mutex = 0"
| "rank (Connections_mutex k) = 1"

text \<open>What is acquired ranks above what is held, what is released is held, and in the end nothing is.\<close>

fun ordered :: "thread \<Rightarrow> bool" where
  "ordered (H, []) = (H = {})"
| "ordered (H, Acquire ms # ops) = (ms \<noteq> {} \<and> (\<forall>h \<in> H. \<forall>m \<in> ms. rank h < rank m) \<and> ordered (H \<union> ms, ops))"
| "ordered (H, Release ms # ops) = (ms \<subseteq> H \<and> ordered (H - ms, ops))"

lemma ordered_append: "ordered (H, ops) \<Longrightarrow> ordered ({}, ops') \<Longrightarrow> ordered (H, ops @ ops')"
  by (induction "(H, ops)" arbitrary: H ops rule: ordered.induct) auto

lemma ordered_concat: "(\<And>ops. ops \<in> set opss \<Longrightarrow> ordered ({}, ops)) \<Longrightarrow> ordered ({}, concat opss)"
  by (induction opss) (auto intro: ordered_append)

lemma ordered_on_map [simp]: "ordered ({}, on_map k)"
  by (simp add: locked_def)

lemma ordered_maps [simp]: "ordered ({}, concat (map on_map ks))"
  by (rule ordered_concat) auto

lemma ordered_subscriptions [simp]: "ordered ({}, locked {Subscriptions_mutex} [])"
  by (simp add: locked_def)

lemma ordered_info: "ordered ({}, info_locks)"
  by (simp add: info_locks_def locked_def)

lemma ordered_publish: "ordered ({}, publish_locks found)"
  unfolding publish_locks_def by (rule ordered_concat) (auto intro!: ordered_append simp del: list.map concat.simps)

lemma ordered_connection: "ordered ({}, connection_locks found)"
  unfolding connection_locks_def Let_def by (intro ordered_append) simp_all

lemma ordered_locks_of: "ordered ({}, locks_of c)"
proof (cases c)
  case (Publishes found)
  then show ?thesis by (simp add: ordered_publish)
next
  case (Reads_connection found)
  then show ?thesis by (simp add: ordered_connection)
next
  case Informs
  then show ?thesis by (simp add: ordered_info)
qed (simp_all add: join_locks_def leave_locks_def subscribe_locks_def unsubscribe_locks_def connections_locks_def
    snapshot_locks_def run_locks_def ordered_append del: list.map concat.simps, simp_all add: locked_def)

lemma ordered_calling: "ordered (calling cs)"
  unfolding calling_def by (rule ordered_concat) (auto simp: ordered_locks_of)

section \<open>Progress\<close>

lemma lock_step_ordered: "lock_step ts ts' \<Longrightarrow> \<forall>t \<in> set ts. ordered t \<Longrightarrow> \<forall>t \<in> set ts'. ordered t"
proof (induction rule: lock_step.induct)
  case (acquire i ts H ms ops)
  then have "ordered (H, Acquire ms # ops)" by (metis nth_mem)
  then show ?case using acquire by (auto dest!: set_update_subset_insert [THEN subsetD])
next
  case (release i ts H ms ops)
  then have "ordered (H, Release ms # ops)" by (metis nth_mem)
  then show ?case using release by (auto dest!: set_update_subset_insert [THEN subsetD])
qed

text \<open>A thread that has work to do and cannot do it waits for one that holds a mutex it wants.\<close>

lemma stuck_waits:
  assumes "\<And>ts'. \<not> lock_step ts ts'" "\<forall>t \<in> set ts. ordered t" "(H, op # ops) \<in> set ts"
  obtains ms m H' op' ops' where "op = Acquire ms" "m \<in> ms" "(H', op' # ops') \<in> set ts" "m \<in> H'"
proof -
  obtain i where i: "i < length ts" "ts ! i = (H, op # ops)" using assms(3) by (metis in_set_conv_nth)
  then obtain ms where ms: "op = Acquire ms" using release [of i ts H _ ops] assms(1) by (cases op) auto
  then obtain t m where t: "t \<in> set ts" "m \<in> fst t" "m \<in> ms" using acquire [of i ts H ms ops] i assms(1) by blast
  then have "ordered t" using assms(2) by blast
  then have "snd t \<noteq> []" using t(2) by (cases t) auto
  then obtain op' ops' where "t = (fst t, op' # ops')" by (metis list.exhaust prod.collapse)
  then show thesis using that [OF ms t(3), of "fst t" op' ops'] t by metis
qed

lemma ordered_progress:
  assumes "\<forall>t \<in> set ts. ordered t" "\<exists>t \<in> set ts. snd t \<noteq> []"
  shows "\<exists>ts'. lock_step ts ts'"
proof (rule ccontr)
  assume "\<not> ?thesis"
  then have stuck: "\<not> lock_step ts ts'" for ts' by blast
  have wants: "\<exists>H ms ops. (H, Acquire ms # ops) \<in> set ts \<and> (\<forall>m \<in> ms. n \<le> rank m)" for n
  proof (induction n)
    case 0
    obtain t op ops where "t \<in> set ts" "t = (fst t, op # ops)"
      using assms(2) by (metis list.exhaust prod.collapse)
    then have t: "(fst t, op # ops) \<in> set ts" by metis
    from stuck_waits [OF stuck assms(1) t] obtain ms where "op = Acquire ms" by metis
    then show ?case using t by blast
  next
    case (Suc n)
    then obtain H ms ops where w: "(H, Acquire ms # ops) \<in> set ts" "\<forall>m \<in> ms. n \<le> rank m" by blast
    from stuck_waits [OF stuck assms(1) w(1)] obtain m H' op' ops' where m: "m \<in> ms"
      "(H', op' # ops') \<in> set ts" "m \<in> H'" by (metis lock_op.inject(1))
    from stuck_waits [OF stuck assms(1) m(2)] obtain ms' where ms': "op' = Acquire ms'" by metis
    have "ordered (H', op' # ops')" using assms(1) m(2) by blast
    then have "\<forall>m' \<in> ms'. Suc n \<le> rank m'" using w(2) m(1,3) ms' by fastforce
    then show ?case using m(2) ms' by blast
  qed
  obtain H ms ops where w: "(H, Acquire ms # ops) \<in> set ts" "\<forall>m \<in> ms. 2 \<le> rank m" using wants by blast
  then have "ordered (H, Acquire ms # ops)" using assms(1) by blast
  then obtain m where "m \<in> ms" by auto
  moreover have "rank m \<le> 1" by (cases m) simp_all
  ultimately show False using w(2) by force
qed

lemma never_deadlock:
  assumes "lock_step\<^sup>*\<^sup>* (map calling css) ts"
  shows "\<forall>t \<in> set ts. ordered t" and "\<exists>t \<in> set ts. snd t \<noteq> [] \<Longrightarrow> \<exists>ts'. lock_step ts ts'"
proof -
  show ok: "\<forall>t \<in> set ts. ordered t"
    using assms
  proof (induction rule: rtranclp_induct)
    case (step a b)
    then show ?case using lock_step_ordered by blast
  qed (auto simp: ordered_calling)
  show "\<exists>ts'. lock_step ts ts'" if "\<exists>t \<in> set ts. snd t \<noteq> []" by (rule ordered_progress [OF ok that])
qed

text \<open>The operations left.\<close>

definition work :: "thread list \<Rightarrow> nat" where
  "work ts = sum_list (map (length \<circ> snd) ts)"

lemma work_update:
  assumes "i < length ts" "length (snd (ts ! i)) = Suc (length ops)"
  shows "work ts = Suc (work (ts[i := (H, ops)]))"
proof -
  have "map (length \<circ> snd) (ts[i := (H, ops)]) = (map (length \<circ> snd) ts)[i := length ops]" by (simp add: map_update)
  moreover have "length (snd (ts ! i)) \<le> sum_list (map (length \<circ> snd) ts)"
    using assms(1) by (intro member_le_sum_list) auto
  ultimately show ?thesis
    using assms by (simp add: work_def sum_list_update)
qed

lemma lock_step_work: "lock_step ts ts' \<Longrightarrow> work ts = Suc (work ts')"
  by (induction rule: lock_step.induct) (simp_all add: work_update)

lemma steps_work: "(lock_step ^^ n) ts ts' \<Longrightarrow> work ts = n + work ts'"
  by (induction n arbitrary: ts') (auto dest: lock_step_work)

lemma work_done: "work ts = 0 \<longleftrightarrow> (\<forall>t \<in> set ts. snd t = [])"
  by (auto simp: work_def)


text \<open>The collection that finds the next instant passed waits for itself: it gets as far as its second lock
  and no further, whatever other threads do, and keeps every other collection waiting.\<close>

lemma late_collection_blocks:
  assumes "lock_step\<^sup>*\<^sup>* (({}, run_locks True) # ts) ts'"
  shows "\<exists>rest. ts' = ({}, run_locks True) # rest \<or>
    ts' = ({Collector_mutex}, tl (run_locks True)) # rest"
  using assms
proof (induction rule: rtranclp_induct)
  case (step a b)
  then obtain t rest where a: "a = t # rest" "t = ({}, run_locks True) \<or> t = ({Collector_mutex}, tl (run_locks True))"
    by blast
  from step.hyps(2) show ?case
  proof cases
    case (acquire i H ms ops)
    then show ?thesis using a by (cases i) (auto simp: run_locks_def locked_def)
  next
    case (release i H ms ops)
    then show ?thesis using a by (cases i) (auto simp: run_locks_def locked_def)
  qed
qed simp

section \<open>Witness\<close>


end
