(* ===== verification/Serializer.thy ===== *)
theory Serializer
  imports Sample_State
begin

text \<open>
  \<open>storage_serializer.cpp\<close>: the dump of the storage into a file and its restoration. A file is the
  list of its bytes; an input stream is the list of the bytes not yet read. Past the end of the file
  \<open>istream::get\<close> leaves its argument alone, and nothing in the code looks at the stream's state
  after the file is open.
\<close>

section \<open>Writing\<close>

definition write_raw :: "'a::len word \<Rightarrow> bytes" where
  "write_raw value = word_to_le value"

definition magic :: bytes where "magic = [0x54, 0x48, 0x52, 0x54]"

definition dump_version :: byte where "dump_version = 1"

definition value_size_code :: "('v::len, 'x) protocol_scheme \<Rightarrow> byte" where
  "value_size_code E = of_nat (value_size E)"

definition dump_metrics :: "entry_metrics \<Rightarrow> bytes" where
  "dump_metrics m =
     write_raw (em_reads m) @ write_raw (em_writes m) @
     write_raw (em_reads_accumulator m) @ write_raw (em_writes_accumulator m) @
     write_raw (em_reads_per_minute m) @ write_raw (em_writes_per_minute m)"

definition dump_value :: "'v::len entry \<Rightarrow> bytes" where
  "dump_value e =
     (if e_type e = Counter then write_raw (e_counter e)
      else if e_type e = Raw then write_raw (of_nat (length (e_buffer e)) :: 'v word) @ e_buffer e
      else [])"

definition dump_entry :: "('v::len, 'x) protocol_scheme \<Rightarrow> 'v entry_wrapper \<Rightarrow> bytes" where
  "dump_entry E w =
     (let key = w_key w; e = w_entry w
      in write_raw (of_nat (length key) :: u16) @ key @ write_raw (e_expires_at e) @
         write_raw (entry_code E (e_type e)) @ write_raw (ttl_code E (e_ttl_type e)) @
         dump_metrics (w_metrics w) @ dump_value e)"

text \<open>The visible entries, in the order of the iteration.\<close>

definition dumped :: "'v::len storage \<Rightarrow> 'v entry_wrapper list" where
  "dumped s = filter (\<lambda>w. \<not> w_expired w) (map snd s)"

definition dump :: "('v::len, 'x) protocol_scheme \<Rightarrow> 'v storage \<Rightarrow> bytes" where
  "dump E s =
     magic @ write_raw dump_version @ write_raw (value_size_code E) @
     write_raw (of_nat (length (dumped s)) :: 32 word) @ concat (map (dump_entry E) (dumped s))"

text \<open>\<open>opened\<close>: the file could be opened for writing.\<close>

definition dump_to_file :: "('v::len, 'x) protocol_scheme \<Rightarrow> bool \<Rightarrow> 'v storage \<Rightarrow> bytes res" where
  "dump_to_file E opened s =
     (if \<not> opened then Inl (Serialize ''Unable to open dump file for writing'') else Inr (dump E s))"

section \<open>Reading\<close>

fun stream_get :: "byte \<Rightarrow> bytes \<Rightarrow> byte \<times> bytes" where
  "stream_get c [] = (c, [])"
| "stream_get c (b # s) = (b, s)"

text \<open>One variable \<open>c\<close> for all the bytes of an integer: past the end the last byte read repeats.\<close>

fun read_chars :: "nat \<Rightarrow> byte \<Rightarrow> bytes \<Rightarrow> bytes \<times> bytes" where
  "read_chars 0 c s = ([], s)"
| "read_chars (Suc n) c s =
     (let (c', s1) = stream_get c s; (bs, s2) = read_chars n c' s1 in (c' # bs, s2))"

definition read_raw :: "bytes \<Rightarrow> 'a::len word \<times> bytes" where
  "read_raw s = (let (bs, s') = read_chars (LENGTH('a) div 8) 0 s in (le_to_word bs, s'))"

definition read_metric :: "bytes \<Rightarrow> u64 \<times> bytes" where
  "read_metric s = read_raw s"

text \<open>A fresh \<open>c = 0\<close> for each byte: past the end the bytes are 0.\<close>

fun read_bytes :: "nat \<Rightarrow> bytes \<Rightarrow> bytes \<times> bytes" where
  "read_bytes 0 s = ([], s)"
| "read_bytes (Suc n) s =
     (let (c, s1) = stream_get 0 s; (bs, s2) = read_bytes n s1 in (c # bs, s2))"

definition read_metrics :: "bytes \<Rightarrow> entry_metrics \<times> bytes" where
  "read_metrics s =
     (let (r, s1) = read_metric s; (w, s2) = read_metric s1; (ra, s3) = read_metric s2;
          (wa, s4) = read_metric s3; (rm, s5) = read_metric s4; (wm, s6) = read_metric s5
      in (\<lparr>em_reads = r, em_writes = w, em_reads_accumulator = ra, em_writes_accumulator = wa,
           em_reads_per_minute = rm, em_writes_per_minute = wm\<rparr>, s6))"

text \<open>The value that follows an entry: \<open>_new_entry\<close> gets it.\<close>

definition read_entry_value :: "'v::len entry \<Rightarrow> bytes \<Rightarrow> 'v entry \<times> bytes" where
  "read_entry_value e s =
     (if e_type e = Counter then let (n, s') = read_raw s in (e\<lparr>e_counter := n\<rparr>, s')
      else if e_type e = Raw
        then let (n, s1) = read_raw s; (bs, s2) = read_bytes (unat (n :: 'v word)) s1
             in (update_buffer bs e, s2)
      else (e, s))"

text \<open>
  What one turn of the loop has read: \<open>_key\<close>, \<open>_new_entry\<close> (with its type, TTL type and
  expiration) and \<open>_metrics\<close>. The entry is built on \<open>sizeof(value_type)\<close> zero bytes first.
\<close>

definition value_storage :: "('v::len, 'x) protocol_scheme \<Rightarrow> bytes" where
  "value_storage E = replicate (value_size E) 0"

definition read_item ::
  "('v::len, 'x) protocol_scheme \<Rightarrow> bytes \<Rightarrow> ((bytes \<times> 'v entry \<times> entry_metrics) \<times> bytes) res" where
  "read_item E s =
     (let (key_size, s1) = read_raw s :: u16 \<times> bytes;
          (key, s2) = read_bytes (unat key_size) s1;
          (expires_at, s3) = read_raw s2;
          (type_raw, s4) = read_raw s3;
          (ttl_raw, s5) = read_raw s4
      in bind_res (make_entry E (entry_of_code E type_raw) (value_storage E) (ttl_of_code E ttl_raw) expires_at)
           (\<lambda>new_entry.
             let (metrics, s6) = read_metrics s5; (e, s7) = read_entry_value new_entry s6
             in Inr ((key, e, metrics), s7)))"

text \<open>
  The element put into the storage is built again from the key, the type, the TTL type, the expiration
  and the zero bytes: the entry and the metrics that were read are not used.
\<close>

fun restore_loop ::
  "('v::len, 'x) protocol_scheme \<Rightarrow> nat \<Rightarrow> bytes \<Rightarrow> nat \<times> 'v storage \<Rightarrow> (nat \<times> 'v storage) res" where
  "restore_loop E 0 s acc = Inr acc"
| "restore_loop E (Suc n) s (node, st) =
     bind_res (read_item E s) (\<lambda>((key, e, metrics), s').
     bind_res (make_wrapper E key (e_type e) (value_storage E) (e_ttl_type e) (e_expires_at e)) (\<lambda>w.
       restore_loop E n s' (Suc node, fst (storage_emplace E node w st))))"

text \<open>\<open>file\<close>: the contents of the file, \<open>None\<close> when it cannot be opened.\<close>

definition restore_from_file ::
  "('v::len, 'x) protocol_scheme \<Rightarrow> bytes option \<Rightarrow> nat \<times> 'v storage \<Rightarrow> (nat \<times> 'v storage) res" where
  "restore_from_file E file acc =
     bind_res (of_option (Serialize ''Unable to open dump file for reading'') file) (\<lambda>s.
       if take 4 s \<noteq> magic then Inl (Serialize ''Invalid dump file format'')
       else let (v, s1) = read_raw (drop 4 s); (vs, s2) = read_raw s1; (n, s3) = read_raw s2 :: 32 word \<times> bytes
            in if v \<noteq> dump_version then Inl (Serialize ''Unsupported dump file version'')
               else if vs \<noteq> value_size_code E then Inl (Serialize ''Mismatched value_size in dump file'')
               else restore_loop E (unat n) s3 acc)"

section \<open>What was written can be read\<close>

lemma read_chars_append: "length bs = n \<Longrightarrow> read_chars n c (bs @ s) = (bs, s)"
  by (induction bs arbitrary: n c) auto

lemma read_raw_write [simp]:
  assumes "8 dvd LENGTH('a)"
  shows "read_raw (write_raw w @ s) = (w :: 'a::len word, s)"
  using le_to_word_to_le [OF assms, of w] by (simp add: read_raw_def write_raw_def read_chars_append)

lemma read_bytes_append: "length bs = n \<Longrightarrow> read_bytes n (bs @ s) = (bs, s)"
  by (induction bs arbitrary: n) auto

lemma read_metrics_dump [simp]: "read_metrics (dump_metrics m @ s) = (m, s)"
  by (simp add: read_metrics_def dump_metrics_def read_metric_def)

lemma make_entry_blank:
  "make_entry (E :: ('v::len, 'x) protocol_scheme) ty (value_storage E) tt ex = Inr
     \<lparr>e_type = ty, e_counter = 0, e_buffer = (if ty = Raw then value_storage E else []), e_ttl_type = tt,
      e_expires_at = ex\<rparr>"
proof -
  have "le_to_word (replicate n 0) = (0 :: 'v word)" for n by (induction n) (simp_all add: le_to_word_def)
  then show ?thesis by (simp add: make_entry_def read_value_def value_storage_def)
qed

text \<open>An entry that a dump can hold: its enumerators are those of their bytes, its sizes fit.\<close>

definition dumpable :: "('v::len, 'x) protocol_scheme \<Rightarrow> 'v entry_wrapper \<Rightarrow> bool" where
  "dumpable E w \<longleftrightarrow>
     length (w_key w) < 2 ^ 16 \<and> length (e_buffer (w_entry w)) < 2 ^ LENGTH('v) \<and>
     entry_of_code E (entry_code E (e_type (w_entry w))) = e_type (w_entry w) \<and>
     ttl_of_code E (ttl_code E (e_ttl_type (w_entry w))) = e_ttl_type (w_entry w)"

text \<open>The part of an entry that its type uses.\<close>

definition normal_entry :: "('v::len, 'x) protocol_scheme \<Rightarrow> 'v entry \<Rightarrow> 'v entry" where
  "normal_entry E e = e\<lparr>e_counter := (if e_type e = Counter then e_counter e else 0),
     e_buffer := (if e_type e = Raw then e_buffer e else [])\<rparr>"

lemma item_roundtrip_aux:
  assumes "8 dvd LENGTH('v::len)" "dumpable (E :: ('v, 'x) protocol_scheme) w"
  shows "read_item E (dump_entry E w @ s) = Inr ((w_key w, normal_entry E (w_entry w), w_metrics w), s)"
proof -
  have "unat (of_nat (length (w_key w)) :: u16) = length (w_key w)"
    "unat (of_nat (length (e_buffer (w_entry w))) :: 'v word) = length (e_buffer (w_entry w))"
    using assms(2) by (simp_all add: dumpable_def unsigned_of_nat take_bit_nat_eq_self)
  then show ?thesis
    using assms
    by (cases "w_entry w")
      (auto simp: read_item_def dump_entry_def dumpable_def make_entry_blank dump_value_def normal_entry_def
        read_entry_value_def update_buffer_def read_bytes_append Let_def)
qed

text \<open>C25: What \<open>dump_to_file\<close> writes for an entry, the reader of \<open>restore_from_file\<close> reads back: the key,
  the entry with the value its type uses, and its six metrics, with the stream left at the next entry.\<close>

theorem item_roundtrip:
  assumes "8 dvd LENGTH('v::len)" "dumpable (E :: ('v, 'x) protocol_scheme) w"
  shows "read_item E (dump_entry E w @ s) = Inr ((w_key w, normal_entry E (w_entry w), w_metrics w), s)"
  by (rule item_roundtrip_aux [OF assms])

section \<open>What a restart keeps\<close>

definition blank_entry :: "('v::len, 'x) protocol_scheme \<Rightarrow> 'v entry \<Rightarrow> 'v entry" where
  "blank_entry E e = e\<lparr>e_counter := 0, e_buffer := (if e_type e = Raw then value_storage E else [])\<rparr>"

lemma make_wrapper_blank:
  "make_wrapper E k (e_type e) (value_storage E) (e_ttl_type e) (e_expires_at e) = Inr
     \<lparr>w_key = k, w_entry = blank_entry E e, w_expired = False, w_metrics = count_write new_entry_metrics\<rparr>"
  by (cases e) (simp add: make_wrapper_def make_entry_blank blank_entry_def)

lemma blank_normal_entry [simp]: "blank_entry E (normal_entry E e) = blank_entry E e"
  by (simp add: blank_entry_def normal_entry_def)

lemma read_item_total: "\<exists>x s'. read_item E s = Inr (x, s')"
  by (auto simp: read_item_def make_entry_blank Let_def split: prod.split)

lemma restore_loop_total: "\<exists>r. restore_loop E n s acc = Inr r"
proof (induction n arbitrary: s acc)
  case (Suc n)
  obtain key e ms s' where "read_item E s = Inr ((key, e, ms), s')"
    using read_item_total [of E s] by auto
  with Suc show ?case by (cases acc) (simp add: make_wrapper_blank)
qed simp

text \<open>What the loop does to a storage, on the entries of a dump.\<close>

lemma restore_loop_dump:
  fixes E :: "('v::len, 'x) protocol_scheme"
  assumes "8 dvd LENGTH('v)" "\<forall>w \<in> set ws. dumpable E w" "distinct (map w_key ws)"
    and "storage_ok st" "fst ` set st \<subseteq> {..<node}" "\<forall>w \<in> set ws. slots st (w_key w) = Free"
    and "\<forall>(n, w) \<in> set st. w_metrics w = count_write new_entry_metrics"
  obtains node' st' where
    "restore_loop E (length ws) (concat (map (dump_entry E) ws) @ s) (node, st) = Inr (node', st')"
    "storage_ok st'" "fst ` set st' \<subseteq> {..<node'}"
    "\<forall>(n, w) \<in> set st'. w_metrics w = count_write new_entry_metrics"
    "\<forall>k. slots st' k = (case List.find (\<lambda>w. w_key w = k) ws of
       Some w \<Rightarrow> Live (blank_entry E (w_entry w)) | None \<Rightarrow> slots st k)"
  using assms(2-)
proof (induction ws arbitrary: node st thesis)
  case Nil
  show ?case by (rule Nil.prems(1) [OF _ Nil.prems(4,5,7)]) simp_all
next
  case (Cons w ws)
  let ?w = "\<lparr>w_key = w_key w, w_entry = blank_entry E (w_entry w), w_expired = False,
    w_metrics = count_write new_entry_metrics\<rparr>"
  let ?st = "fst (storage_emplace E node ?w st)"
  have free: "storage_find (w_key w) st = None" and new: "node \<notin> fst ` set st"
    using Cons.prems(5,6) by (auto simp: slots_def wrapper_slot_def split: option.splits if_splits)
  then have "slots ?st = (slots st)(w_key w := wrapper_slot ?w)"
    using slots_emplace [of st ?w node E] Cons.prems(4) by simp
  then have sl: "slots ?st k = (if k = w_key w then Live (blank_entry E (w_entry w)) else slots st k)" for k
    by (simp add: wrapper_slot_def)
  have ok: "storage_ok ?st" using storage_emplace_ok [OF Cons.prems(4) new] .
  have "insert node (fst ` set st) \<subseteq> {..<Suc node}" using Cons.prems(5) by auto
  then have nodes: "fst ` set ?st \<subseteq> {..<Suc node}" by (rule order_trans [OF nodes_emplace])
  have fresh: "\<forall>v \<in> set ws. slots ?st (w_key v) = Free"
    using Cons.prems(3,6) sl by (force simp: image_iff)
  have metrics: "\<forall>(n, v) \<in> set ?st. w_metrics v = count_write new_entry_metrics"
    using Cons.prems(7) free by (auto simp: fst_storage_emplace)
  have ws: "\<forall>w \<in> set ws. dumpable E w" "distinct (map w_key ws)" using Cons.prems(2,3) by simp_all
  obtain node' st' where st':
    "restore_loop E (length ws) (concat (map (dump_entry E) ws) @ s) (Suc node, ?st) = Inr (node', st')"
    "storage_ok st'" "fst ` set st' \<subseteq> {..<node'}"
    "\<forall>(n, w) \<in> set st'. w_metrics w = count_write new_entry_metrics"
    "\<forall>k. slots st' k = (case List.find (\<lambda>w. w_key w = k) ws of
       Some w \<Rightarrow> Live (blank_entry E (w_entry w)) | None \<Rightarrow> slots ?st k)"
    by (rule Cons.IH [OF _ ws ok nodes fresh metrics])
  show ?case
  proof (rule Cons.prems(1) [OF _ st'(2-4)])
    have "dumpable E w" using Cons.prems(2) by simp
    then show "restore_loop E (length (w # ws)) (concat (map (dump_entry E) (w # ws)) @ s) (node, st) = Inr (node', st')"
      using st'(1) by (simp add: item_roundtrip_aux [OF assms(1)] make_wrapper_blank)
  next
    have "List.find (\<lambda>v. w_key v = w_key w) ws = None"
      using Cons.prems(3) by (force simp: find_None_iff image_iff)
    then show "\<forall>k. slots st' k = (case List.find (\<lambda>w. w_key w = k) (w # ws) of
       Some w \<Rightarrow> Live (blank_entry E (w_entry w)) | None \<Rightarrow> slots st k)"
      using st'(5) sl by (auto split: option.split)
  qed
qed

lemma find_dumped:
  assumes "storage_ok s"
  shows "slots s k = (case List.find (\<lambda>w. w_key w = k) (dumped s) of
     Some w \<Rightarrow> Live (w_entry w) | None \<Rightarrow> slots s k)" and
    "List.find (\<lambda>w. w_key w = k) (dumped s) = None \<Longrightarrow> \<nexists>e. slots s k = Live e"
proof -
  have "slots s k = Live (w_entry w)" if "List.find (\<lambda>w. w_key w = k) (dumped s) = Some w" for w
  proof -
    from that have "w \<in> set (dumped s)" "w_key w = k" by (auto simp: find_Some_iff)
    then obtain n where "(n, w) \<in> set s" "\<not> w_expired w" by (auto simp: dumped_def)
    then have "storage_find k s = Some (n, w)"
      using storage_find_eq_Some [OF assms] \<open>w_key w = k\<close> by blast
    then show ?thesis using \<open>\<not> w_expired w\<close> by (simp add: slots_def wrapper_slot_def)
  qed
  then show "slots s k = (case List.find (\<lambda>w. w_key w = k) (dumped s) of
     Some w \<Rightarrow> Live (w_entry w) | None \<Rightarrow> slots s k)" by (simp split: option.split)
  assume none: "List.find (\<lambda>w. w_key w = k) (dumped s) = None"
  show "\<nexists>e. slots s k = Live e"
  proof
    assume "\<exists>e. slots s k = Live e"
    then obtain n w where "storage_find k s = Some (n, w)" "\<not> w_expired w"
      by (auto simp: slots_def wrapper_slot_def split: option.splits if_splits)
    then have "w \<in> set (dumped s)" "w_key w = k"
      using storage_find_SomeD [of k s n w] by (force simp: dumped_def)+
    with none show False by (auto simp: find_None_iff)
  qed
qed

lemma dumped_distinct: "storage_ok s \<Longrightarrow> distinct (map w_key (dumped s))"
  by (simp add: dumped_def storage_ok_def distinct_map_filter_key flip: map_map)

text \<open>What a restart keeps: the visible keys, without their values and their metrics.\<close>

lemma restore_dump_helper:
  fixes E :: "('v::len, 'x) protocol_scheme"
  assumes "8 dvd LENGTH('v)" "storage_ok s" "\<forall>w \<in> set (dumped s). dumpable E w" "length (dumped s) < 2 ^ 32"
  shows "\<exists>n s'. restore_from_file E (Some (dump E s)) (0, []) = Inr (n, s') \<and> storage_ok s' \<and>
    fst ` set s' \<subseteq> {..<n} \<and>
    (\<forall>k. slots s' k = (case slots s k of Live e \<Rightarrow> Live (blank_entry E e) | _ \<Rightarrow> Free)) \<and>
    (\<forall>(n, w) \<in> set s'. w_metrics w = count_write new_entry_metrics)"
proof -
  let ?ws = "dumped s"
  obtain n s' where s': "restore_loop E (length ?ws) (concat (map (dump_entry E) ?ws) @ []) (0, []) = Inr (n, s')"
    "storage_ok s'" "fst ` set s' \<subseteq> {..<n}" "\<forall>(n, w) \<in> set s'. w_metrics w = count_write new_entry_metrics"
    "\<forall>k. slots s' k = (case List.find (\<lambda>w. w_key w = k) ?ws of
       Some w \<Rightarrow> Live (blank_entry E (w_entry w)) | None \<Rightarrow> slots [] k)"
    by (rule restore_loop_dump [OF assms(1,3) dumped_distinct [OF assms(2)], of "[]" 0 "[]"])
      (simp_all add: slots_Cons)
  have "unat (of_nat (length ?ws) :: 32 word) = length ?ws"
    using assms(4) by (simp add: unsigned_of_nat take_bit_nat_eq_self)
  then have "restore_from_file E (Some (dump E s)) (0, []) = Inr (n, s')"
    using s'(1) by (simp add: restore_from_file_def dump_def magic_def Let_def)
  moreover have "slots s' k = (case slots s k of Live e \<Rightarrow> Live (blank_entry E e) | _ \<Rightarrow> Free)" for k
    using s'(5) find_dumped [OF assms(2), of k]
    by (cases "List.find (\<lambda>w. w_key w = k) ?ws"; cases "slots s k") (auto simp: slots_Cons)
  ultimately show ?thesis using s'(2-4) by blast
qed

lemma read_byte:
  "read_raw [] = (0 :: byte, [])"
  "read_raw (b # s) = (b :: byte, s)"
  by (simp_all add: read_raw_def le_to_word_def)

text \<open>The header after the magic word.\<close>

lemma restore_header:
  assumes "take 4 f = magic" "value_size_code E \<noteq> 0"
  shows "(\<exists>r. restore_from_file E (Some f) acc = Inr r) \<longleftrightarrow>
    take 2 (drop 4 f) = [dump_version, value_size_code E]"
proof -
  define d where "d = drop 4 f"
  have f: "restore_from_file E (Some f) acc =
    (let (v, s1) = read_raw d; (vs, s2) = read_raw s1; (n, s3) = read_raw s2 :: 32 word \<times> bytes
     in if v \<noteq> dump_version then Inl (Serialize ''Unsupported dump file version'')
        else if vs \<noteq> value_size_code E then Inl (Serialize ''Mismatched value_size in dump file'')
        else restore_loop E (unat n) s3 acc)"
    using assms(1) by (simp add: restore_from_file_def d_def)
  consider "d = []" | b where "d = [b]" | b c s where "d = b # c # s"
    by (metis list.exhaust)
  then have "(\<exists>r. restore_from_file E (Some f) acc = Inr r) \<longleftrightarrow> take 2 d = [dump_version, value_size_code E]"
  proof cases
    case 1
    then show ?thesis by (simp add: f read_byte dump_version_def Let_def split: prod.split)
  next
    case 2
    then show ?thesis using assms(2) by (simp add: f read_byte Let_def split: prod.split)
  next
    case 3
    obtain n s3 where n: "(read_raw s :: 32 word \<times> bytes) = (n, s3)" by fastforce
    obtain r where "restore_loop E (unat n) s3 acc = Inr r" using restore_loop_total by blast
    then show ?thesis using 3 by (simp add: f read_byte n)
  qed
  then show ?thesis by (simp add: d_def)
qed

lemma restore_accepts:
  fixes E :: "('v::len, 'x) protocol_scheme"
  assumes "LENGTH('v) \<in> {8, 16, 32, 64}"
  shows "(\<exists>r. restore_from_file E (Some f) acc = Inr r) \<longleftrightarrow>
    take 6 f = magic @ [dump_version, value_size_code E]"
proof -
  have code: "value_size_code E \<noteq> 0" using assms by (auto simp: value_size_code_def)
  have f6: "take 6 f = take 4 f @ take 2 (drop 4 f)" using take_add [of 4 2 f] by simp
  show ?thesis
  proof (cases "take 4 f = magic")
    case True
    then show ?thesis using restore_header [OF True code] f6 by simp
  next
    case False
    have "take 4 f = magic" if "take 6 f = magic @ [dump_version, value_size_code E]"
      using arg_cong [OF that, of "take 4"] by (simp add: magic_def)
    with False show ?thesis by (auto simp: restore_from_file_def)
  qed
qed

text \<open>C26: Which files are accepted: exactly those whose first six bytes are the magic word, the version and
  the size of a value. Nothing after them can make the restoration fail, so a truncated dump is accepted.\<close>

theorem restore_accepts_iff:
  fixes E :: "('v::len, 'x) protocol_scheme"
  assumes "LENGTH('v) \<in> {8, 16, 32, 64}"
  shows "(\<exists>r. restore_from_file E (Some f) acc = Inr r) \<longleftrightarrow>
    take 6 f = magic @ [dump_version, value_size_code E]"
  by (rule restore_accepts [OF assms])

section \<open>Witnesses\<close>

definition sample_wrapper :: "16 entry_wrapper" where
  "sample_wrapper = \<lparr>w_key = [7, 8], w_entry = \<lparr>e_type = Raw, e_counter = 0, e_buffer = [1, 2, 3],
     e_ttl_type = Hours, e_expires_at = 5000\<rparr>, w_expired = False, w_metrics = new_entry_metrics\<rparr>"

theorem item_roundtrip_witness:
  "read_item (sample_protocol :: 16 protocol) (dump_entry sample_protocol sample_wrapper @ [9]) =
     Inr (([7, 8], w_entry sample_wrapper, new_entry_metrics), [9])"
proof -
  have "dumpable (sample_protocol :: 16 protocol) sample_wrapper"
    by (simp add: dumpable_def sample_wrapper_def sample_entry_of_code_def sample_ttl_of_code_def)
  from item_roundtrip [OF _ this] show ?thesis by (simp add: sample_wrapper_def normal_entry_def)
qed

theorem restore_accepts_iff_witness:
  "\<exists>r. restore_from_file (sample_protocol :: 16 protocol) (Some [0x54, 0x48, 0x52, 0x54, 1, 2, 9]) (0, []) = Inr r"
  using restore_accepts_iff [of "sample_protocol :: 16 protocol" "[0x54, 0x48, 0x52, 0x54, 1, 2, 9]" "(0, [])"]
  by (simp add: magic_def dump_version_def value_size_code_def)

end
