(* ===== verification/App.thy ===== *)
theory App
  imports Serializer Pools
begin

text \<open>
  The program around the server: \<open>program_parameters.hpp\<close> and \<open>main.cpp\<close>, what \<open>state/shutdown.cpp\<close>
  does at start-up and at the end, and the loop of \<open>agent.hpp\<close> that connects to a master. The options
  parsed by \<open>boost::program_options\<close> are an argument: for each option the value given, if any.
\<close>

section \<open>The parameters\<close>

record program_parameters =
  pp_socket :: string
  pp_port :: u16
  pp_threads :: int
  pp_has_master :: bool
  pp_master_host :: string
  pp_master_socket :: string
  pp_master_port :: u16
  pp_sync_strategy :: string
  pp_persistent :: bool
  pp_dump :: string

text \<open>A member that the initializer of \<open>main\<close> does not name keeps its default.\<close>

definition default_parameters :: program_parameters where
  "default_parameters =
     \<lparr>pp_socket = ''EMPTY'', pp_port = 0, pp_threads = 1, pp_has_master = True,
      pp_master_host = ''localhost'', pp_master_socket = ''disabled'', pp_master_port = 0,
      pp_sync_strategy = ''hard'', pp_persistent = False, pp_dump = ''throttr.db''\<rparr>"

record options =
  opt_socket :: "string option"
  opt_port :: "u16 option"
  opt_threads :: "int option"
  opt_has_master :: "bool option"
  opt_master_socket :: "string option"
  opt_master_host :: "string option"
  opt_master_port :: "u16 option"
  opt_sync_strategy :: "string option"
  opt_persistent :: "bool option"
  opt_dump :: "string option"

definition value_or :: "'a \<Rightarrow> 'a option \<Rightarrow> 'a" where
  "value_or d x = (case x of None \<Rightarrow> d | Some v \<Rightarrow> v)"

text \<open>\<open>std::stoi\<close>: \<open>None\<close> for the exceptions it throws.\<close>

definition is_space :: "char \<Rightarrow> bool" where
  "is_space c \<longleftrightarrow> of_char c = (32 :: nat) \<or> (of_char c :: nat) \<in> {9..13}"

definition is_digit :: "char \<Rightarrow> bool" where
  "is_digit c \<longleftrightarrow> (of_char c :: nat) \<in> {48..57}"

definition int_max :: int where "int_max = 2147483647"

definition stoi :: "string \<Rightarrow> int option" where
  "stoi text =
     (let s = dropWhile is_space text;
          (negative, t) = (case s of [] \<Rightarrow> (False, [])
             | c # cs \<Rightarrow> if c = CHR ''-'' then (True, cs) else if c = CHR ''+'' then (False, cs) else (False, s));
          ds = takeWhile is_digit t;
          n = foldl (\<lambda>a c. 10 * a + (of_char c - 48)) 0 ds;
          v = if negative then - n else n
      in if ds = [] \<or> v < - int_max - 1 \<or> v > int_max then None else Some v)"

text \<open>\<open>default_threads\<close>: \<open>env\<close> is the environment variable \<open>THREADS\<close>.\<close>

definition default_threads :: "string option \<Rightarrow> int" where
  "default_threads env =
     (case env of None \<Rightarrow> 1
      | Some s \<Rightarrow> (case stoi s of Some n \<Rightarrow> max 1 n | None \<Rightarrow> 1))"

definition main_parameters :: "string option \<Rightarrow> options \<Rightarrow> program_parameters" where
  "main_parameters env vm = default_parameters
     \<lparr>pp_socket := value_or ''throttr.sock'' (opt_socket vm),
      pp_port := value_or 9000 (opt_port vm),
      pp_threads := value_or (default_threads env) (opt_threads vm),
      pp_has_master := value_or False (opt_has_master vm),
      pp_master_host := value_or ''127.0.0.1'' (opt_master_host vm),
      pp_master_socket := value_or ''disabled'' (opt_master_socket vm),
      pp_master_port := value_or 9000 (opt_master_port vm),
      pp_sync_strategy := value_or ''hard'' (opt_sync_strategy vm),
      pp_dump := value_or ''throttr.db'' (opt_dump vm)\<rparr>"

section \<open>Start-up and shutdown\<close>

text \<open>The files by name; \<open>writable\<close> says which can be opened for writing.\<close>

type_synonym files = "string \<Rightarrow> bytes option"

definition prepare_for_shutdown ::
  "('v::len, 'x) protocol_scheme \<Rightarrow> (string \<Rightarrow> bool) \<Rightarrow> program_parameters \<Rightarrow> 'v state \<Rightarrow> files
     \<Rightarrow> files res" where
  "prepare_for_shutdown E writable parameters st files =
     (if pp_persistent parameters
      then bind_res (dump_to_file E (writable (pp_dump parameters)) (st_storage st)) (\<lambda>bs.
        Inr (files(pp_dump parameters := Some bs)))
      else Inr files)"

definition prepare_for_startup ::
  "('v::len, 'x) protocol_scheme \<Rightarrow> program_parameters \<Rightarrow> files \<Rightarrow> 'v state \<Rightarrow> 'v state res" where
  "prepare_for_startup E parameters files st =
     (if pp_persistent parameters
      then bind_res (restore_from_file E (files (pp_dump parameters)) (st_next_node st, st_storage st))
        (\<lambda>(n, s). Inr (st\<lparr>st_storage := s, st_next_node := n\<rparr>))
      else Inr st)"

text \<open>The option \<open>--persistent\<close> has no effect: \<open>main\<close> never copies it. Whatever the options and the
  environment, nothing is written at shutdown and nothing is read at start-up.\<close>

theorem persistent_option_ignored:
  "prepare_for_shutdown E writable (main_parameters env vm) st files = Inr files \<and>
   prepare_for_startup E (main_parameters env vm) files st' = Inr st'"
  by (simp add: prepare_for_shutdown_def prepare_for_startup_def main_parameters_def default_parameters_def)

text \<open>C24: With persistence switched on, a server that is shut down and started again has the same visible
  keys with their types, TTL types and expirations, and has lost every value; entries that waited to be
  erased are gone. The new state satisfies the invariant.\<close>

theorem restart_loses_values:
  fixes E :: "('v::len, 'x) protocol_scheme"
  assumes "8 dvd LENGTH('v)" "state_ok st" "pp_persistent p" "writable (pp_dump p)"
    and "\<forall>w \<in> set (dumped (st_storage st)). dumpable E w" "length (dumped (st_storage st)) < 2 ^ 32"
  shows "\<exists>files' st'. prepare_for_shutdown E writable p st files = Inr files' \<and>
    prepare_for_startup E p files' (make_state now) = Inr st' \<and> state_ok st' \<and>
    (\<forall>k. slots (st_storage st') k =
      (case slots (st_storage st) k of Live e \<Rightarrow> Live (blank_entry E e) | _ \<Rightarrow> Free))"
proof -
  have "storage_ok (st_storage st)" using assms(2) by (simp add: state_ok_def entries_ok_def)
  from restore_dump_helper [OF assms(1) this assms(5,6)]
  obtain n s' where s': "restore_from_file E (Some (dump E (st_storage st))) (0, []) = Inr (n, s')"
    "storage_ok s'" "fst ` set s' \<subseteq> {..<n}"
    "\<forall>k. slots s' k = (case slots (st_storage st) k of Live e \<Rightarrow> Live (blank_entry E e) | _ \<Rightarrow> Free)"
    by blast
  let ?st = "(make_state now)\<lparr>st_storage := s', st_next_node := n\<rparr>"
  have "state_ok ?st"
    using s'(2,3) by (auto simp: state_ok_def entries_ok_def connections_ok_def subscriptions_ok_def make_state_def)
  then show ?thesis
    using assms(3,4) s'(1,4)
    by (simp add: prepare_for_shutdown_def prepare_for_startup_def dump_to_file_def make_state_def)
qed

section \<open>Start-up on the thread that serves\<close>

text \<open>
  Every entry built takes a buffer from the pool of its thread: two per entry of the dump, for
  \<open>_new_entry\<close> and for the element put into the storage. \<open>None\<close>: a call does not return.
\<close>

fun take_buffers :: "nat \<Rightarrow> bytes pool \<Rightarrow> bytes pool res option" where
  "take_buffers 0 p = Some (Inr p)"
| "take_buffers (Suc n) p =
     (case buffers_take_one p of
        None \<Rightarrow> None
      | Some (Inl e) \<Rightarrow> Some (Inl e)
      | Some (Inr (_, p')) \<Rightarrow> take_buffers n p')"

text \<open>\<open>_count\<close>, the number of entries that the header of a file announces.\<close>

definition dump_count :: "bytes \<Rightarrow> nat" where
  "dump_count f = unat (fst (read_raw (drop 6 f)) :: 32 word)"

definition startup_on_thread ::
  "('v::len, 'x) protocol_scheme \<Rightarrow> program_parameters \<Rightarrow> files \<Rightarrow> bytes pool \<Rightarrow> 'v state
     \<Rightarrow> ('v state \<times> bytes pool) res option" where
  "startup_on_thread E p files pool st =
     (case prepare_for_startup E p files st of
        Inl e \<Rightarrow> Some (Inl e)
      | Inr st' \<Rightarrow>
          map_option (\<lambda>r. bind_res r (\<lambda>pool'. Inr (st', pool')))
            (take_buffers (if pp_persistent p then 2 * dump_count (the (files (pp_dump p))) else 0) pool))"

lemma take_buffers_returns:
  assumes "pool_ok [] p" "pool_size \<le> pl_capacity p"
  shows "\<exists>p'. take_buffers n p = Some (Inr p')"
  using assms
proof (induction n arbitrary: p)
  case (Suc n)
  have pos: "0 < pool_size" by (simp add: pool_size_def)
  show ?case
  proof (rule take_one_ok [of clear_bytes "[]" p, OF _ Suc.prems(1) pos Suc.prems(2)])
    show "clear_bytes x = []" for x by (simp add: clear_bytes_def)
  next
    fix a p'
    assume "take_one [] clear_bytes pool_size p = Some (Inr (a, p'))" "pool_ok [] p'" "pl_capacity p' = pl_capacity p"
    then show "\<exists>p'. take_buffers (Suc n) p = Some (Inr p')" using Suc by (simp add: buffers_take_one_def)
  qed
qed simp

text \<open>C39: With persistence on, start-up never returns when the dump holds an entry. \<open>serve\<close> restores before
  the thread has prepared its pools in \<open>boot\<close>; the first entry built asks an unprepared pool for a buffer,
  which loops. After \<open>boot\<close> the same call would return.\<close>

theorem startup_hangs:
  fixes E :: "('v::len, 'x) protocol_scheme"
  assumes "pp_persistent p" "files (pp_dump p) = Some f" "0 < dump_count f"
    and "prepare_for_startup E p files st = Inr st'"
  shows "startup_on_thread E p files (new_pool []) st = None \<and>
    (\<exists>pool. startup_on_thread E p files (snd boot) st = Some (Inr (st', pool)))"
proof -
  have "buffers_take_one (new_pool []) = None"
    unfolding buffers_take_one_def
    by (subst take_one_needs_capacity [OF new_pool_ok]) (simp_all add: new_pool_def pool_size_def)
  then have "take_buffers (2 * dump_count f) (new_pool []) = None"
    using assms(3) by (cases "2 * dump_count f") simp_all
  moreover have "pool_size \<le> pl_capacity (snd boot)" "pool_ok [] (snd boot)"
    by (simp_all add: boot_def prepares_capacity prepares_ok)
  then obtain pool where "take_buffers (2 * dump_count f) (snd boot) = Some (Inr pool)"
    using take_buffers_returns by blast
  ultimately show ?thesis using assms by (simp add: startup_on_thread_def)
qed

section \<open>The agent\<close>

text \<open>
  What the \<open>t\<close>-th attempt meets: whether the master's UNIX socket accepts, whether its host name is
  resolved, whether one of its addresses accepts.
\<close>

record network =
  net_unix :: "nat \<Rightarrow> bool"
  net_resolve :: "nat \<Rightarrow> bool"
  net_tcp :: "nat \<Rightarrow> bool"

text \<open>\<open>None\<close>: an exception. \<open>resolve\<close> is called without an error code and throws.\<close>

definition for_unix :: "network \<Rightarrow> nat \<Rightarrow> bool option" where
  "for_unix net t = Some (net_unix net t)"

definition for_tcp :: "network \<Rightarrow> nat \<Rightarrow> bool option" where
  "for_tcp net t = (if \<not> net_resolve net t then None else Some (net_tcp net t))"

definition attempt :: "network \<Rightarrow> program_parameters \<Rightarrow> nat \<Rightarrow> bool option" where
  "attempt net p t = (if pp_master_socket p \<noteq> ''disabled'' then for_unix net t else for_tcp net t)"

text \<open>The loop: the attempt that succeeds, \<open>Some None\<close> for an exception, \<open>None\<close> when it never ends.\<close>

partial_function (option) try_to_connect :: "network \<Rightarrow> program_parameters \<Rightarrow> nat \<Rightarrow> nat option option" where
  "try_to_connect net p t =
     (case attempt net p t of
        None \<Rightarrow> Some None
      | Some success \<Rightarrow> if success then Some (Some t) else try_to_connect net p (Suc t))"

lemma try_to_connect_refused:
  "t \<le> n \<Longrightarrow> (\<And>m. t \<le> m \<Longrightarrow> m < n \<Longrightarrow> attempt net p m = Some False) \<Longrightarrow>
     try_to_connect net p t = try_to_connect net p n"
proof (induction "n - t" arbitrary: t)
  case (Suc d)
  then have "try_to_connect net p (Suc t) = try_to_connect net p n" by (intro Suc.hyps(1)) auto
  moreover have "attempt net p t = Some False" using Suc by auto
  ultimately show ?case by (simp add: try_to_connect.simps [of net p t])
qed simp

lemma try_to_connect_returns:
  assumes "try_to_connect net p t = Some r"
  shows "\<exists>n \<ge> t. attempt net p n \<noteq> Some False"
proof (rule try_to_connect.raw_induct [where P = "\<lambda>net p t _. \<exists>n \<ge> t. attempt net p n \<noteq> Some False", OF _ assms])
  fix f net p t and r :: "nat option"
  assume IH: "\<And>net p t r. f net p t = Some r \<Longrightarrow> \<exists>n \<ge> t. attempt net p n \<noteq> Some False"
    and r: "(case attempt net p t of None \<Rightarrow> Some None
      | Some success \<Rightarrow> if success then Some (Some t) else f net p (Suc t)) = Some r"
  show "\<exists>n \<ge> t. attempt net p n \<noteq> Some False"
  proof (cases "attempt net p t = Some False")
    case True
    then have "f net p (Suc t) = Some r" using r by simp
    from IH [OF this] show ?thesis by (meson Suc_leD)
  qed blast
qed

lemma try_to_connect_first:
  assumes "t \<le> n" "attempt net p n \<noteq> Some False" "\<And>m. t \<le> m \<Longrightarrow> m < n \<Longrightarrow> attempt net p m = Some False"
  shows "try_to_connect net p t = Some (map_option (\<lambda>_. n) (attempt net p n))"
proof -
  have "try_to_connect net p t = try_to_connect net p n"
    by (rule try_to_connect_refused [OF assms(1,3)])
  then show ?thesis
    using assms(2) by (cases "attempt net p n") (simp_all add: try_to_connect.simps [of net p n])
qed

text \<open>The agent tries until the first attempt that is not refused: it returns the number of that attempt
  if it connects, and an exception leaves the loop if the master's name cannot be resolved. If every
  attempt is refused it tries for ever.\<close>

theorem try_to_connect_spec:
  "try_to_connect net p t =
     (if \<exists>n \<ge> t. attempt net p n \<noteq> Some False
      then let n = (LEAST n. t \<le> n \<and> attempt net p n \<noteq> Some False)
           in Some (map_option (\<lambda>_. n) (attempt net p n))
      else None)"
proof (cases "\<exists>n \<ge> t. attempt net p n \<noteq> Some False")
  case True
  let ?P = "\<lambda>n. t \<le> n \<and> attempt net p n \<noteq> Some False"
  let ?n = "LEAST n. ?P n"
  have n: "?P ?n" using True by (rule LeastI_ex)
  have "attempt net p m = Some False" if "t \<le> m" "m < ?n" for m
    using not_less_Least [OF that(2)] that(1) by blast
  then show ?thesis using try_to_connect_first [of t ?n net p] n True by (simp add: Let_def)
next
  case False
  then show ?thesis using try_to_connect_returns [of net p t] by (cases "try_to_connect net p t") auto
qed

text \<open>\<open>default_threads\<close> is a positive \<open>int\<close> whatever the environment variable holds.\<close>

theorem default_threads_positive: "1 \<le> default_threads env \<and> default_threads env \<le> int_max"
proof -
  have "stoi s = Some n \<Longrightarrow> n \<le> int_max" for s n
    by (auto simp: stoi_def Let_def split: if_splits prod.splits)
  then show ?thesis by (auto simp: default_threads_def int_max_def split: option.split)
qed

section \<open>Witnesses\<close>

theorem restart_loses_values_witness:
  "\<exists>files' st'. prepare_for_shutdown (sample_protocol :: 16 protocol) (\<lambda>_. True)
      (default_parameters\<lparr>pp_persistent := True\<rparr>) (one_counter 12) (\<lambda>_. None) = Inr files' \<and>
    prepare_for_startup (sample_protocol :: 16 protocol) (default_parameters\<lparr>pp_persistent := True\<rparr>) files' (make_state 0) = Inr st' \<and>
    slots (st_storage st') [7] = Live \<lparr>e_type = Counter, e_counter = 0, e_buffer = [],
      e_ttl_type = Seconds, e_expires_at = 5000\<rparr>"
proof -
  let ?p = "default_parameters\<lparr>pp_persistent := True\<rparr>" and ?st = "one_counter 12 :: 16 state"
  have "dumped (st_storage ?st) = map snd (st_storage ?st)"
    by (simp add: dumped_def one_counter_def)
  then have "\<forall>w \<in> set (dumped (st_storage ?st)). dumpable (sample_protocol :: 16 protocol) w"
    "length (dumped (st_storage ?st)) < 2 ^ 32"
    by (simp_all add: dumpable_def one_counter_def sample_entry_of_code_def sample_ttl_of_code_def)
  from restart_loses_values [OF _ one_counter_state_ok _ _ this, of ?p "\<lambda>_. True" "\<lambda>_. None" 0]
  obtain files' st' where r:
    "prepare_for_shutdown (sample_protocol :: 16 protocol) (\<lambda>_. True) ?p ?st (\<lambda>_. None) = Inr files'"
    "prepare_for_startup (sample_protocol :: 16 protocol) ?p files' (make_state 0) = Inr st'"
    "slots (st_storage st') [7] = (case slots (st_storage ?st) [7] of
       Live e \<Rightarrow> Live (blank_entry (sample_protocol :: 16 protocol) e) | _ \<Rightarrow> Free)"
    by auto
  then have "slots (st_storage st') [7] = Live \<lparr>e_type = Counter, e_counter = 0, e_buffer = [],
      e_ttl_type = Seconds, e_expires_at = 5000\<rparr>"
    by (simp add: one_counter_ok(2) blank_entry_def)
  with r(1,2) show ?thesis by blast
qed

theorem startup_hangs_witness:
  "startup_on_thread (sample_protocol :: 16 protocol) (default_parameters\<lparr>pp_persistent := True\<rparr>)
     (\<lambda>_. Some ([0x54, 0x48, 0x52, 0x54, 1, 2] @ word_to_le (1 :: 32 word))) (new_pool []) (make_state 0) = None"
proof -
  let ?p = "default_parameters\<lparr>pp_persistent := True\<rparr>" and ?E = "sample_protocol :: 16 protocol"
  let ?f = "[0x54, 0x48, 0x52, 0x54, 1, 2] @ word_to_le (1 :: 32 word)"
  have "dump_count ?f = 1"
    using read_raw_write [of "1 :: 32 word" "[]"] by (simp add: dump_count_def write_raw_def)
  moreover have "\<exists>r. restore_from_file ?E (Some ?f) (0, []) = Inr r"
    by (subst restore_accepts) (simp_all add: magic_def dump_version_def value_size_code_def)
  then obtain st' where "prepare_for_startup ?E ?p (\<lambda>_. Some ?f) (make_state 0) = Inr st'"
    by (auto simp: prepare_for_startup_def make_state_def)
  ultimately show ?thesis
    using startup_hangs [of ?p "\<lambda>_. Some ?f" ?f ?E "make_state 0" st'] by simp
qed

end
