(* ===== verification/Threads.thy ===== *)
theory Threads
  imports Collector_Timer
begin

text \<open>
  \<open>app::serve\<close> runs the \<open>io_context\<close> on several threads, and no strand holds the handlers of the connections:
  while one thread serves the requests of a read, others serve other connections, accept, write, and run
  the strand and the timers. This theory lets the handlers interleave between requests: a handler that
  serves a read takes turns, one request each, and anything may happen between two of them. What a turn
  does to the containers is taken as one step; the races inside it are outside the model.
\<close>

section \<open>Turns\<close>

text \<open>
  A configuration is the state with the connections that handlers are serving. \<open>arrive\<close> is \<open>on_read\<close> up to
  the loop of \<open>try_process_next\<close>, \<open>serve\<close> one turn of the loop, \<open>leave_loop\<close> what follows the loop. A handler
  holds its connection, which is therefore not destroyed meanwhile. The functions dispatched to the strand
  run at any time, also between two requests of one read, as \<open>boost::asio::dispatch\<close> runs them when the
  strand is free.
\<close>

inductive turn ::
  "('v::len, 'x) protocol_scheme \<Rightarrow> 'v state \<times> handlers \<Rightarrow> 'v state \<times> handlers \<Rightarrow> bool" for E where
  arrive: "the_connection k i st = Some c \<Longrightarrow> c_reading c \<Longrightarrow> c_open c \<Longrightarrow> length data \<le> room c \<Longrightarrow>
    turn E (st, F) (on_connection k i (received data) st, insert (k, i) F)"
| serve: "(k, i) \<in> F \<Longrightarrow> the_connection k i st = Some c \<Longrightarrow> get_message_size E (pending c) = Inr n \<Longrightarrow>
    n \<noteq> 0 \<Longrightarrow> n \<le> length (pending c) \<Longrightarrow> serve_request E now k i (take n (pending c)) st = Inr st' \<Longrightarrow>
    turn E (st, F) (st', F)"
| leave_loop: "(k, i) \<in> F \<Longrightarrow> the_connection k i st = Some c \<Longrightarrow> get_message_size E (pending c) = Inr n \<Longrightarrow>
    n = 0 \<or> length (pending c) < n \<Longrightarrow>
    turn E (st, F) (on_connection k i (do_read \<circ> compact_buffer_if_needed) st, F - {(k, i)})"
| handler: "handler_step E st st' \<Longrightarrow> held F st' \<Longrightarrow> turn E (st, F) (st', F)"

abbreviation turns :: "('v::len, 'x) protocol_scheme \<Rightarrow> 'v state \<times> handlers \<Rightarrow> 'v state \<times> handlers \<Rightarrow> bool" where
  "turns E \<equiv> (turn E)\<^sup>*\<^sup>*"

section \<open>The uninterrupted handlers\<close>

lemma process_loop_turns:
  assumes "process_loop n E clock t k i st = Inr st'" "(k, i) \<in> F"
  obtains c m where "turns E (st, F) (st', F)" "the_connection k i st' = Some c"
    "get_message_size E (pending c) = Inr m" "m = 0 \<or> length (pending c) < m"
  using assms
proof (induction n arbitrary: t st thesis)
  case (Suc n)
  obtain c m where c: "the_connection k i st = Some c" "get_message_size E (pending c) = Inr m"
    using Suc.prems(2) by (auto simp: res_simps)
  show ?case
  proof (cases "m = 0 \<or> length (pending c) < m")
    case True
    then show ?thesis using Suc.prems(1) [of c m] Suc.prems(2) c by simp
  next
    case False
    then obtain st1 where 1: "serve_request E (clock t) k i (take m (pending c)) st = Inr st1"
      "process_loop n E clock (Suc t) k i st1 = Inr st'" using Suc.prems(2) c by (auto simp: res_simps)
    have t: "turn E (st, F) (st1, F)" using False by (intro serve [OF Suc.prems(3) c _ _ 1(1)]) simp_all
    show ?thesis
      by (rule Suc.IH [OF _ 1(2) Suc.prems(3)]) (use Suc.prems(1) converse_rtranclp_into_rtranclp [of "turn E", OF t] in blast)
  qed
qed simp

lemma step_turns:
  assumes "step E st st'"
  shows "turns E (st, {}) (st', {})"
  using assms
proof cases
  case (read k i c data clock)
  let ?st0 = "on_connection k i (received data) st" and ?g = "do_read \<circ> compact_buffer_if_needed"
  obtain st1 n where st1: "process_loop n E clock 0 k i ?st0 = Inr st1" "st' = on_connection k i ?g st1"
    using read(5) unfolding on_read_def try_process_next_def
    by (auto simp: res_simps simp del: process_loop.simps)
  obtain c1 m where 1: "turns E (?st0, {(k, i)}) (st1, {(k, i)})" "the_connection k i st1 = Some c1"
    "get_message_size E (pending c1) = Inr m" "m = 0 \<or> length (pending c1) < m"
    by (rule process_loop_turns [OF st1(1), of "{(k, i)}"]) simp_all
  have "turn E (st, {}) (?st0, {(k, i)})" by (rule arrive [OF read(1-4)])
  moreover have "turn E (st1, {(k, i)}) (on_connection k i ?g st1, {(k, i)} - {(k, i)})"
    by (rule leave_loop [OF _ 1(2-4)]) simp
  ultimately show ?thesis
    using 1(1) st1(2) by (metis (no_types, lifting) Diff_cancel converse_rtranclp_into_rtranclp rtranclp.rtrancl_into_rtrancl)
next
  case other
  then show ?thesis by (intro r_into_rtranclp handler) simp_all
qed


section \<open>The invariant\<close>

lemma received_fields [simp]:
  "c_id (received d c) = c_id c" "home (received d c) = home c" "wq (received d c) = wq c"
  "cm_commands (c_metrics (received d c)) = cm_commands (c_metrics c)" "\<not> c_reading (received d c)"
  by (simp_all add: received_def home_def wq_def Let_def)

lemma busy_connection:
  assumes "system_ok F st" "the_connection k i st = Some c"
  shows "c_reading c \<Longrightarrow> (k, i) \<notin> F" and "buffer_ok c" "queue_busy (wq c)"
  using system_okD(2) [OF assms] by (auto simp: conn_ok_def)

lemma system_ok_set:
  assumes "system_ok F st" "held F' st'" "state_ok st'"
    and "\<And>k' j. (k', j) \<noteq> (k, i) \<Longrightarrow> rx_of k' j st' = rx_of k' j st \<and> ((k', j) \<in> F' \<longleftrightarrow> (k', j) \<in> F)"
    and "\<And>c'. the_connection k i st' = Some c' \<Longrightarrow> conn_ok ((k, i) \<in> F') c'"
  shows "system_ok F' st'"
  unfolding system_ok_def
proof (intro conjI allI impI assms(2,3))
  fix k' j c'
  assume c': "the_connection k' j st' = Some c'"
  show "conn_ok ((k', j) \<in> F') c'"
  proof (cases "(k', j) = (k, i)")
    case True
    then show ?thesis using assms(5) c' by simp
  next
    case False
    then obtain c where "the_connection k' j st = Some c" "\<And>b. conn_ok b c' = conn_ok b c"
      using assms(4) conn_ok_rx_of [OF _ c'] by metis
    then show ?thesis using assms(1,4) False by (auto simp: system_ok_def)
  qed
qed

lemma turn_ok:
  assumes "turn E a b" "request_codes_ok E" "system_ok (snd a) (fst a)"
  shows "system_ok (snd b) (fst b)"
  using assms(1)
proof cases
  case (arrive k i st c data F)
  have ok: "system_ok F st" using assms(3) arrive(1) by simp
  note d = system_okD [OF ok arrive(3)] and r = received_state [OF _ arrive(3) _ arrive(6)]
  have b: "buffer_ok c" "queue_busy (wq c)" using busy_connection(2,3) [OF ok arrive(3)] .
  show ?thesis unfolding arrive(2) fst_conv snd_conv
    by (rule system_ok_set [OF ok, of _ _ k i])
      (use ok arrive(3) r [OF d(1) b(1)] b(2) in \<open>auto simp: held_def system_ok_def the_connection_on rx_of_on conn_ok_def\<close>)
next
  case (serve k i F st c n now st')
  have ok: "system_ok F st" using assms(3) serve(1) by simp
  note d = system_okD [OF ok serve(4)] and b = busy_connection(2,3) [OF ok serve(4)]
  note frame = serve_request_frame [OF assms(2) d(1) serve(4,8)]
  obtain c' where c': "the_connection k i st' = Some c'" "buffer_ok c'" "wq c' = wq c" "state_ok st'"
    using serve_front [OF assms(2) d(1) serve(4) b(1) serve(7,8)] .
  have "c_reading c' = c_reading c" using frame(2) c'(1) by (auto simp: rx_of_def rx_def consume_def)
  then have "conn_ok True c'" using d(2) serve(3) c'(2,3) by (simp add: conn_ok_def)
  moreover have "held F st'"
  proof -
    have "the_connection k' j st' \<noteq> None" if "(k', j) \<in> F" for k' j
    proof (cases "(k', j) = (k, i)")
      case False
      then have "rx_of k' j st' = rx_of k' j st" by (rule frame(3))
      moreover have "the_connection k' j st \<noteq> None" using ok that by (auto simp: system_ok_def held_def)
      ultimately show ?thesis by (metis rx_of_def option.map_disc_iff)
    qed (use c'(1) in auto)
    then show ?thesis by (auto simp: held_def)
  qed
  ultimately have "system_ok F st'"
    by (intro system_ok_set [OF ok, of _ _ k i]) (use frame(1,3) c'(1) serve(3) in auto)
  then show ?thesis using serve(2) by simp
next
  case (leave_loop k i F st c n)
  have ok: "system_ok F st" using assms(3) leave_loop(1) by simp
  note d = system_okD [OF ok leave_loop(4)] and b = busy_connection(2,3) [OF ok leave_loop(4)]
  note r = do_read_room [OF b(1)]
  let ?g = "do_read \<circ> compact_buffer_if_needed"
  have "state_ok (on_connection k i ?g st)"
    by (rule state_ok_on_connection [OF d(1) leave_loop(4)]) (use r d(5) in simp_all)
  then show ?thesis unfolding leave_loop(2) fst_conv snd_conv
    by (intro system_ok_set [OF ok, of _ _ k i])
      (use ok leave_loop(4) r b in \<open>auto simp: held_def system_ok_def the_connection_on rx_of_on conn_ok_def\<close>)
next
  case (handler st st' F)
  then show ?thesis using handler_step_ok [of E st st' F] assms(3) by simp
qed

lemma turns_ok: "turns E a b \<Longrightarrow> request_codes_ok E \<Longrightarrow> system_ok (snd a) (fst a) \<Longrightarrow> system_ok (snd b) (fst b)"
  by (induction rule: rtranclp_induct) (auto intro: turn_ok)

lemma make_state_system_ok: "system_ok {} (make_state now)"
  by (simp add: system_ok_def make_state_ok)

lemma running_ok: "turns E (make_state now, {}) (st, F) \<Longrightarrow> request_codes_ok E \<Longrightarrow> system_ok F st"
  by (drule turns_ok) (simp_all add: make_state_system_ok)

text \<open>C6: However the handlers of several threads take their turns, in every state the server reaches the
  invariant of the state holds, every receive buffer is well formed and every queue of answers fits; a
  connection that a handler serves exists and is not read at the same time, so that no two handlers
  serve it; every other open connection is being read; and an open connection with answers waiting is
  being written to.\<close>

theorem threads_states_ok:
  assumes "request_codes_ok E" "turns E (make_state now, {}) (st, F)"
  shows "state_ok st \<and> (\<forall>(k, i) \<in> F. the_connection k i st \<noteq> None) \<and>
    (\<forall>k i c. the_connection k i st = Some c \<longrightarrow> buffer_ok c \<and> length (c_pending_writes c) \<le> pending_capacity \<and>
      ((k, i) \<in> F \<longrightarrow> \<not> c_reading c) \<and> ((k, i) \<notin> F \<longrightarrow> c_open c \<longrightarrow> c_reading c) \<and>
      (c_writing c \<noteq> None \<longrightarrow> c_pending_writes c \<noteq> []) \<and>
      (c_open c \<longrightarrow> c_pending_writes c \<noteq> [] \<longrightarrow> c_writing c \<noteq> None))"
  using running_ok [OF assms(2,1)] unfolding system_ok_def held_def conn_ok_def queue_busy_def wq_def by auto

section \<open>The requests of a read stay in order\<close>

text \<open>No handler touches the buffer of a connection that another one serves.\<close>

lemma pending_fields [simp]:
  "pending (run_posted c) = pending c" "pending (on_write error n c) = pending c"
  "pending (compute_commands c) = pending c"
  by (simp_all add: pending_def run_posted_def on_send_def write_next_def on_write_def close_def compute_commands_def
      Let_def split: list.split)

lemma handler_step_buffer:
  assumes "handler_step E st st'" "system_ok F st" "the_connection k i st = Some c" "(k, i) \<in> F"
    and "the_connection k i st' = Some c'"
  shows "pending c' = pending c"
proof -
  have live: "i \<in> live_ids st" by (rule the_connection_live [OF assms(3)])
  have ok: "state_ok st" using assms(2) by (simp add: system_ok_def)
  have collected: "st_connections s' = st_connections s" if "run clock t s = Inr s'" "storage_ok (st_storage s)"
    for clock t and s s' :: "'a state"
  proof -
    have "\<not> st_mutex s" using that(1) by (simp add: run.simps [of clock t s] split: if_splits)
    from run_cases [OF that(2) this, of clock t] that(1) show ?thesis
      by (auto simp: set_timer_def split: if_splits)
  qed
  have s: "storage_ok (st_storage st)" using ok by (simp add: state_ok_def entries_ok_def)
  show ?thesis
    using assms(1)
  proof cases
    case (accept j kind error created joined ip port)
    then show ?thesis
      using the_connection_start(2) [OF ok accept(2), of k i E joined kind Client created ip port] live assms(3,5)
      by (auto simp: on_accept_def split: if_splits)
  next
    case (agent j joined kind created ip port)
    then show ?thesis
      using the_connection_start(2) [OF ok agent(2), of k i E joined kind Agent created ip port] live assms(3,5)
      by (auto split: if_splits)
  next
    case (read_error k' j d clock)
    then have "(k', j) \<noteq> (k, i)" using busy_connection(1) [OF assms(2)] assms(4) by blast
    then show ?thesis using read_error assms(3,5) by (auto simp: on_read_def the_connection_on option.map_id split: if_splits)
  next
    case (destroyed k' j d)
    then show ?thesis using the_connection_leave(2) [OF assms(2) destroyed(2)] assms(3,5) by fastforce
  next
    case (task clock t)
    then have "st_connections st' = st_connections st"
      using collected [of clock "Suc t" "st\<lparr>st_tasks := tl (st_tasks st)\<rparr>" st'] s
      by (cases "st_tasks st") (auto simp: run_task_def schedule_timer.simps [of clock t] set_timer_def split: if_splits)
    then show ?thesis using assms(3,5) by (simp add: the_connection_def)
  next
    case (timer clock t)
    then have "st_connections st' = st_connections st"
      using collected [of clock t "st\<lparr>st_timer := None\<rparr>" st'] s by (simp add: on_timer_def)
    then show ?thesis using assms(3,5) by (simp add: the_connection_def)
  qed (use assms(3,5) in \<open>auto simp: the_connection_on the_connection_metrics option.map_id split: if_splits\<close>)
qed

lemma turn_buffer:
  assumes "turn E a b" "request_codes_ok E" "system_ok (snd a) (fst a)"
    and "the_connection k i (fst a) = Some c" "(k, i) \<in> snd a" "(k, i) \<in> snd b"
  shows "\<exists>c' vs. the_connection k i (fst b) = Some c' \<and>
    frames E (pending c) = (vs @ fst (frames E (pending c')), snd (frames E (pending c')))"
proof -
  have "held (snd b) (fst b)" using turn_ok [OF assms(1-3)] by (simp add: system_ok_def)
  then obtain c' where c': "the_connection k i (fst b) = Some c'" using assms(6) by (auto simp: held_def)
  have "pending c' = pending c \<or> (\<exists>n. get_message_size E (pending c) = Inr n \<and> n \<noteq> 0 \<and>
      n \<le> length (pending c) \<and> pending c' = drop n (pending c))"
    using assms(1)
  proof cases
    case (arrive k' j st d data F)
    then have "\<not> (k = k' \<and> i = j)" using busy_connection(1) [of F st k' j d] assms(3,5) by auto
    then have "the_connection k i (fst b) = the_connection k i st"
      unfolding arrive(2) fst_conv the_connection_on by (auto simp: option.map_id)
    then show ?thesis using assms(4) c' arrive(1) by simp
  next
    case (serve k' j F st d n now st')
    have ok: "system_ok F st" using assms(3) serve(1) by simp
    note dd = system_okD [OF ok serve(4)] and b = busy_connection(2,3) [OF ok serve(4)]
    show ?thesis
    proof (cases "(k', j) = (k, i)")
      case True
      then have "d = c" using assms(4) serve(1,4) by simp
      moreover obtain d' where "the_connection k' j st' = Some d'" "pending d' = drop n (pending d)"
        using serve_front [OF assms(2) dd(1) serve(4) b(1) serve(7,8)] .
      then have "pending c' = drop n (pending d)" using True c' serve(2) by simp
      ultimately show ?thesis using serve(5-7) by blast
    next
      case False
      then have "rx_of k i st' = rx_of k i st" by (intro serve_request_frame(3) [OF assms(2) dd(1) serve(4,8)]) auto
      then have "rx c' = rx c" using assms(4) c' serve(1,2) by (simp add: rx_of_def)
      then show ?thesis using rx_buffer(1) by blast
    qed
  next
    case (leave_loop k' j F st d n)
    then have "\<not> (k = k' \<and> i = j)" using assms(6) by auto
    then have "the_connection k i (fst b) = the_connection k i st"
      unfolding leave_loop(2) fst_conv the_connection_on by (auto simp: option.map_id)
    then show ?thesis using assms(4) c' leave_loop(1) by simp
  next
    case (handler st st' F)
    then show ?thesis using handler_step_buffer [OF handler(3), of F k i c c'] assms(3-5) c' by simp
  qed
  then show ?thesis
  proof (elim disjE exE conjE)
    fix n
    assume "get_message_size E (pending c) = Inr n" "n \<noteq> 0" "n \<le> length (pending c)" "pending c' = drop n (pending c)"
    then have "frames E (pending c) = (take n (pending c) # fst (frames E (pending c')), snd (frames E (pending c')))"
      by (subst frames.simps) (simp split: prod.split)
    then show ?thesis using c' by (intro exI [of _ c'] exI [of _ "[take n (pending c)]"]) simp
  qed (use c' in \<open>intro exI [of _ c'] exI [of _ "[]"], simp\<close>)
qed


section \<open>Keys, types and the collector under several threads\<close>

context request_relation
begin

lemma turn:
  assumes "turn E a b" "request_codes_ok E" "system_ok (snd a) (fst a)"
  shows "moves R (fst a) (fst b)"
  using assms(1)
proof cases
  case (serve k i F st c n now st')
  then have "state_ok st" using assms(3) by (simp add: system_ok_def)
  from serve_request(2) [OF assms(2) this serve(8)] show ?thesis unfolding serve(1,2) fst_conv by (rule served)
next
  case (handler st st' F)
  then show ?thesis using handler_step by simp
qed (simp_all add: moves.served same)

end

text \<open>C9: The life of a key does not depend on how the threads take turns. Between two requests of any read
  a collection may fall, and every single turn either is one, at one instant for all keys, or serves
  clients, and then no visible key becomes hidden, no hidden key becomes visible or free, and a hidden
  key keeps its type.\<close>

theorem threads_key_life_cycle:
  assumes "request_codes_ok E" "turns E (make_state now, {}) (st, F)" "turn E (st, F) (st', F')"
  shows "(\<forall>k. served (slots (st_storage st) k) (slots (st_storage st') k)) \<or>
    (\<exists>now. \<forall>k. slots (st_storage st') k = collect_spec now (slots (st_storage st) k))"
proof -
  have ok: "system_ok F st" by (rule running_ok [OF assms(2,1)])
  have "moves (\<lambda>st st'. \<forall>k. served (slots (st_storage st) k) (slots (st_storage st') k)) st st'"
    using life.turn [OF assms(3,1)] ok by simp
  from moves_life [OF this system_ok_entries [OF ok]] show ?thesis .
qed

text \<open>C16: An expired key stays hidden until it is erased, on any number of threads. Along any run on which
  the key is never free, a key that waits to be erased goes on waiting, whatever clients send and
  between whichever requests the collections fall, and keeps its type.\<close>

theorem threads_expired_stays_hidden:
  assumes "request_codes_ok E" "turns E (make_state now, {}) (st, F)" "slots (st_storage st) k = Lingering e"
    and "(\<lambda>a b. turn E a b \<and> slots (st_storage (fst b)) k \<noteq> Free)\<^sup>*\<^sup>* (st, F) (st', F')"
  shows "\<exists>e'. slots (st_storage st') k = Lingering e' \<and> e_type e' = e_type e"
proof -
  have "system_ok (snd b) (fst b) \<and> (\<exists>e'. slots (st_storage (fst b)) k = Lingering e' \<and> e_type e' = e_type e)"
    if "(\<lambda>a b. turn E a b \<and> slots (st_storage (fst b)) k \<noteq> Free)\<^sup>*\<^sup>* (st, F) b" for b
    using that
  proof (induction rule: rtranclp_induct)
    case base
    then show ?case using running_ok [OF assms(2,1)] assms(3) by simp
  next
    case (step a b)
    then obtain e' where e': "slots (st_storage (fst a)) k = Lingering e'" "e_type e' = e_type e"
      and ok: "system_ok (snd a) (fst a)" and b: "turn E a b" "slots (st_storage (fst b)) k \<noteq> Free" by blast
    consider "served (Lingering e') (slots (st_storage (fst b)) k)"
      | now where "slots (st_storage (fst b)) k = collect_spec now (Lingering e')"
      using moves_life [OF life.turn [OF b(1) assms(1) ok] system_ok_entries [OF ok]] e'(1) by metis
    then show ?case
      using e'(2) b(2) turn_ok [OF b(1) assms(1) ok] by cases (auto split: slot.splits if_splits)
  qed
  from this [OF assms(4)] show ?thesis by simp
qed

text \<open>C11: Several threads do not break the types of the entries: in every state reached by turns every entry
  is a counter, which holds no bytes, or a raw value, which holds no quota; no request, and no sequence of
  requests from any number of clients, makes an entry of one type hold data of the other.\<close>

theorem threads_well_typed:
  assumes "request_codes_ok E" "turns E (make_state now, {}) (st, F)"
  shows "slot_typed (slots (st_storage st) k)"
proof -
  have "system_ok (snd b) (fst b) \<and> (\<forall>k. slot_typed (slots (st_storage (fst b)) k))"
    if "turns E (make_state now, {}) b" for b
    using that
  proof (induction rule: rtranclp_induct)
    case base
    show ?case by (simp add: make_state_system_ok) (simp add: make_state_def slots_Cons)
  next
    case (step a b)
    then have ok: "system_ok (snd a) (fst a)" "\<forall>k. slot_typed (slots (st_storage (fst a)) k)" by simp_all
    from moves_typed [OF types.turn [OF step.hyps(2) assms(1) ok(1)] system_ok_entries [OF ok(1)] ok(2)]
      turn_ok [OF step.hyps(2) assms(1) ok(1)] show ?case by blast
  qed
  from this [OF assms(2)] show ?thesis by simp
qed


section \<open>What is always possible\<close>

lemma the_connection_ids: "the_connection k i st \<noteq> None \<longleftrightarrow> i \<in> ids (st_connections st k)"
  by (simp add: the_connection_def ids_def map_of_eq_None_iff)

lemma held_start: "held F st \<Longrightarrow> held F (start E joined c st)"
  unfolding start_def held_on by (auto simp: held_def the_connection_ids simp del: not_None_eq)

lemma held_accept: "held F st \<Longrightarrow> held F (on_accept E kind error i created joined ip port st)"
  by (simp add: on_accept_def held_start)

lemma held_metrics: "held F st \<Longrightarrow> held F (metrics_run st)"
  by (simp add: held_def the_connection_metrics)

section \<open>Witnesses\<close>

text \<open>A client sends, in one piece, a \<open>SET\<close> and a \<open>GET\<close> of the same key; one thread serves the \<open>SET\<close> and, before the
  \<open>GET\<close>, another runs the collection.\<close>

definition pair :: bytes where "pair = set_eight @ [6, 1, 8]"

definition arrived :: "16 state" where
  "arrived = on_connection Tcp 1 (received pair) accepted"

lemma accepted_turns: "turns sample_protocol (make_state 0, {}) (accepted, {})"
  by (rule step_turns [OF accepted_step])

lemma arrived_turn: "turn sample_protocol (accepted, {}) (arrived, {(Tcp, 1)})"
proof -
  have "length pair \<le> room accepted_client" by (simp add: pair_def set_eight_def accepted_fields)
  from arrive [OF accepted_connection accepted_fields(9,10) this, of sample_protocol "{}"] show ?thesis
    by (simp add: arrived_def)
qed

lemma arrived_connection:
  "the_connection Tcp 1 arrived = Some (received pair accepted_client)" "pending (received pair accepted_client) = pair"
proof -
  show "the_connection Tcp 1 arrived = Some (received pair accepted_client)"
    using accepted_connection by (simp add: arrived_def the_connection_on)
  show "pending (received pair accepted_client) = pair"
    using received_pending [of accepted_client pair] by (simp add: accepted_fields pair_def set_eight_def)
qed

lemma pair_size: "get_message_size (sample_protocol :: 16 protocol) pair = Inr (length set_eight)"
  by (simp add: sample_size request_of_def enum_request_types_def declared_size_def fixed_part_def pair_def
      set_eight_def le_to_word_def)

lemma served_turn:
  obtains st where "turn sample_protocol (arrived, {(Tcp, 1)}) (st, {(Tcp, 1)})"
    "st_storage st = [(0, stored_wrapper)]" "st_tasks st = [1000001000]" "\<not> st_mutex st"
proof -
  obtain st where st: "serve_request sample_protocol 1000 Tcp 1 set_eight arrived = Inr st"
    "st_storage st = [(0, stored_wrapper)]" "st_tasks st = [1000001000]" "\<not> st_mutex st"
    unfolding arrived_def by (rule set_eight_served)
  have p: "take (length set_eight) pair = set_eight" "length set_eight \<noteq> 0" "length set_eight \<le> length pair"
    by (simp_all add: pair_def) (simp add: set_eight_def)
  have "turn sample_protocol (arrived, {(Tcp, 1)}) (st, {(Tcp, 1)})"
    by (rule serve [OF _ arrived_connection(1), of _ _ "length set_eight" 1000])
      (simp_all only: arrived_connection(2) pair_size st(1) p insertI1 not_False_eq_True)
  then show thesis using that st(2-4) by blast
qed

lemma collected_turn:
  obtains st st' where "turns sample_protocol (make_state 0, {}) (st, {(Tcp, 1)})"
    "turn sample_protocol (arrived, {(Tcp, 1)}) (st, {(Tcp, 1)})" "dated st"
    "turn sample_protocol (st, {(Tcp, 1)}) (st', {(Tcp, 1)})"
    "slots (st_storage st) [8] = Live (w_entry stored_wrapper)"
    "slots (st_storage st') [8] = Lingering (w_entry stored_wrapper)"
proof -
  obtain st where st: "turn sample_protocol (arrived, {(Tcp, 1)}) (st, {(Tcp, 1)})"
    "st_storage st = [(0, stored_wrapper)]" "st_tasks st = [1000001000]" "\<not> st_mutex st"
    by (rule served_turn)
  obtain st' where st': "handler_step sample_protocol st st'" "slots (st_storage st) [8] = Live (w_entry stored_wrapper)"
    "slots (st_storage st') [8] = Lingering (w_entry stored_wrapper)" "st_connections st' = st_connections st"
    by (rule eight_collected [OF st(2-4)])
  have t: "turns sample_protocol (make_state 0, {}) (st, {(Tcp, 1)})"
    using accepted_turns arrived_turn st(1) by (meson rtranclp.rtrancl_into_rtrancl)
  have "held {(Tcp, 1)} st" using running_ok [OF t sample_request_codes_ok] by (simp add: system_ok_def)
  then have "held {(Tcp, 1)} st'" using st'(4) by (simp add: held_def the_connection_def)
  moreover have "dated st" by (simp add: dated_def st(2) candidate_def stored_wrapper_def no_expiration_def)
  ultimately show thesis using that t st(1) st'(2,3) handler [OF st'(1)] by blast
qed

theorem threads_states_ok_witness: "state_ok arrived \<and> \<not> c_reading (received pair accepted_client)"
proof -
  have "turns sample_protocol (make_state 0, {}) (arrived, {(Tcp, 1)})"
    using accepted_turns arrived_turn by (rule rtranclp.rtrancl_into_rtrancl)
  from threads_states_ok [OF sample_request_codes_ok this] arrived_connection(1) show ?thesis by simp
qed



theorem threads_key_life_cycle_witness:
  "\<exists>st st' now. turn sample_protocol (st, {(Tcp, 1)}) (st', {(Tcp, 1)}) \<and>
     slots (st_storage st) [8] = Live (w_entry stored_wrapper) \<and>
     (\<forall>k. slots (st_storage st') k = collect_spec now (slots (st_storage (st :: 16 state)) k))"
proof -
  obtain st st' where st: "turns sample_protocol (make_state 0, {}) (st, {(Tcp, 1)})"
    "turn sample_protocol (st, {(Tcp, 1)}) (st', {(Tcp, 1)})"
    "slots (st_storage st) [8] = Live (w_entry stored_wrapper)"
    "slots (st_storage st') [8] = Lingering (w_entry stored_wrapper)" by (rule collected_turn)
  have "\<not> (\<forall>k. served (slots (st_storage st) k) (slots (st_storage st') k))"
    using st(3,4) by (intro notI) (drule spec [of _ "[8]"], simp)
  with threads_key_life_cycle [OF sample_request_codes_ok st(1,2)] st show ?thesis by blast
qed

theorem threads_expired_stays_hidden_witness:
  "\<exists>st e. turns sample_protocol (make_state 0, {}) (st :: 16 state, {(Tcp, 1)}) \<and>
     slots (st_storage (metrics_run st)) [8] = Lingering e \<and> e_type e = Raw"
proof -
  obtain st st' where st: "turns sample_protocol (make_state 0, {}) (st, {(Tcp, 1)})"
    "turn sample_protocol (st, {(Tcp, 1)}) (st', {(Tcp, 1)})"
    "slots (st_storage st') [8] = Lingering (w_entry stored_wrapper)" by (rule collected_turn)
  let ?R = "\<lambda>a b. turn sample_protocol a b \<and> slots (st_storage (fst b)) [8] \<noteq> Free"
  have t: "turns sample_protocol (make_state 0, {}) (st', {(Tcp, 1)})"
    using st(1,2) by (rule rtranclp.rtrancl_into_rtrancl)
  have ok: "system_ok {(Tcp, 1)} st'" by (rule running_ok [OF t sample_request_codes_ok])
  then have "held {(Tcp, 1)} st'" by (simp add: system_ok_def)
  from handler [OF handler_step.metrics held_metrics [OF this]]
  have "turn sample_protocol (st', {(Tcp, 1)}) (metrics_run st', {(Tcp, 1)})" .
  moreover have "slots (st_storage (metrics_run st')) [8] \<noteq> Free"
    using collectors_slots(1) [OF system_ok_entries [OF ok]] st(3) by simp
  ultimately have "?R\<^sup>*\<^sup>* (st', {(Tcp, 1)}) (metrics_run st', {(Tcp, 1)})" by (intro r_into_rtranclp) simp
  from threads_expired_stays_hidden [OF sample_request_codes_ok t st(3) this] t show ?thesis
    using stored_fields(2) by metis
qed

theorem threads_well_typed_witness:
  "\<exists>st. turns sample_protocol (make_state 0, {}) (st, {(Tcp, 1)}) \<and>
     slots (st_storage st) [8] = Live (w_entry (stored_wrapper :: 16 entry_wrapper)) \<and> slot_typed (slots (st_storage st) [8])"
proof -
  obtain st where "turns sample_protocol (make_state 0, {}) (st, {(Tcp, 1)})"
    "slots (st_storage st) [8] = Live (w_entry stored_wrapper)" by (rule collected_turn)
  with threads_well_typed [OF sample_request_codes_ok this(1), of "[8]"] show ?thesis by blast
qed


end
