(* ===== verification/Serve.thy ===== *)
theory Serve
  imports App Threads
begin

text \<open>
  The whole program: \<open>server.hpp\<close>, the start of \<open>agent.hpp\<close>, \<open>app.cpp\<close> and the timer of
  \<open>metrics_collector_service.cpp\<close> around the state. The operating system's part (which ports and paths
  can be bound, which port is assigned) is a parameter. What \<open>serve\<close> does before it runs handlers is a
  function; what the handlers do after it, on the threads that \<open>serve\<close> starts, is a step relation that contains the
  turns of theory Threads.
\<close>

section \<open>The program's own state\<close>

text \<open>
  The state, the socket files on disk, what \<open>server\<close> publishes in the state, the outstanding
  \<open>async_accept\<close>s, the deadline of \<open>metrics_timer_\<close>, whether the agent was posted, the number of
  threads that run handlers, the connections whose reads they are serving, and whether the
  \<open>io_context\<close> was stopped.
\<close>

record (overloaded) 'v program =
  pg_state :: "'v::len state"
  pg_sockets :: "string set"
  pg_exposed_port :: u16
  pg_exposed_socket :: string
  pg_acceptor_ready :: bool
  pg_tcp_accepting :: bool
  pg_unix_accepting :: bool
  pg_metrics_timer :: "u64 option"
  pg_agent :: bool
  pg_threads :: nat
  pg_serving :: handlers
  pg_stopped :: bool

record operating_system =
  os_bind_tcp :: "u16 \<Rightarrow> u16 option"
  os_bind_unix :: "string \<Rightarrow> bool"

datatype serve_error = Bind_error | Length_error | Startup_error error

definition new_program :: "u64 \<Rightarrow> string set \<Rightarrow> 'v::len program" where
  "new_program now sockets =
     \<lparr>pg_state = make_state now, pg_sockets = sockets, pg_exposed_port = 0, pg_exposed_socket = [],
      pg_acceptor_ready = False, pg_tcp_accepting = False, pg_unix_accepting = False,
      pg_metrics_timer = None, pg_agent = False, pg_threads = 0, pg_serving = {}, pg_stopped = False\<rparr>"

section \<open>The server\<close>

definition metrics_schedule_timer :: "u64 \<Rightarrow> 'v::len program \<Rightarrow> 'v program" where
  "metrics_schedule_timer now pg = pg\<lparr>pg_metrics_timer := Some (now + 60000000000)\<rparr>"

text \<open>The completion of the wait: a snapshot and the next wait; with an error, neither.\<close>

definition on_metrics_timer :: "bool \<Rightarrow> u64 \<Rightarrow> 'v::len program \<Rightarrow> 'v program" where
  "on_metrics_timer error now pg =
     (let pg' = pg\<lparr>pg_metrics_timer := None\<rparr>
      in if \<not> error then metrics_schedule_timer now (pg'\<lparr>pg_state := metrics_run (pg_state pg')\<rparr>) else pg')"

definition do_tcp_accept :: "'v::len program \<Rightarrow> 'v program" where
  "do_tcp_accept pg = pg\<lparr>pg_tcp_accepting := True\<rparr>"

definition do_unix_accept :: "'v::len program \<Rightarrow> 'v program" where
  "do_unix_accept pg = pg\<lparr>pg_unix_accepting := True\<rparr>"

text \<open>The handlers given to \<open>async_accept\<close>, with what the socket and the clock give the new connection.\<close>

definition on_tcp_accept ::
  "('v::len, 'x) protocol_scheme \<Rightarrow> bool \<Rightarrow> uuid \<Rightarrow> u64 \<Rightarrow> u64 \<Rightarrow> bytes \<Rightarrow> u16 \<Rightarrow> 'v program \<Rightarrow> 'v program" where
  "on_tcp_accept E error i created joined ip port pg =
     do_tcp_accept (pg\<lparr>pg_tcp_accepting := False,
       pg_state := on_accept E Tcp_socket error i created joined ip port (pg_state pg)\<rparr>)"

definition on_unix_accept ::
  "('v::len, 'x) protocol_scheme \<Rightarrow> bool \<Rightarrow> uuid \<Rightarrow> u64 \<Rightarrow> u64 \<Rightarrow> bytes \<Rightarrow> u16 \<Rightarrow> 'v program \<Rightarrow> 'v program" where
  "on_unix_accept E error i created joined ip port pg =
     do_unix_accept (pg\<lparr>pg_unix_accepting := False,
       pg_state := on_accept E Unix_socket error i created joined ip port (pg_state pg)\<rparr>)"

text \<open>The constructor: both acceptors bind, or throw; binding a UNIX path fails when the file exists.\<close>

definition make_server ::
  "operating_system \<Rightarrow> u64 \<Rightarrow> program_parameters \<Rightarrow> 'v::len program \<Rightarrow> serve_error + 'v program" where
  "make_server os now p pg =
     (case os_bind_tcp os (pp_port p) of
        None \<Rightarrow> Inl Bind_error
      | Some port \<Rightarrow>
          if pp_socket p \<in> pg_sockets pg \<or> \<not> os_bind_unix os (pp_socket p) then Inl Bind_error
          else Inr (do_unix_accept (do_tcp_accept (metrics_schedule_timer now
                 (pg\<lparr>pg_sockets := insert (pp_socket p) (pg_sockets pg), pg_exposed_port := port,
                     pg_exposed_socket := pp_socket p, pg_acceptor_ready := True\<rparr>)))))"

section \<open>app\<close>

definition remove_socket :: "program_parameters \<Rightarrow> 'v::len program \<Rightarrow> 'v program" where
  "remove_socket p pg = pg\<lparr>pg_sockets := pg_sockets pg - {pp_socket p}\<rparr>"

definition start_agent :: "program_parameters \<Rightarrow> 'v::len program \<Rightarrow> 'v program" where
  "start_agent p pg = pg\<lparr>pg_agent := pp_has_master p\<rparr>"

text \<open>\<open>_threads.reserve\<close> converts the \<open>int\<close> to \<open>std::size_t\<close>: a negative number is too large and throws.\<close>

definition spawn_threads :: "int \<Rightarrow> 'v::len program \<Rightarrow> serve_error + 'v program" where
  "spawn_threads n pg =
     (if n < 0 then Inl Length_error else Inr (pg\<lparr>pg_threads := pg_threads pg + nat n\<rparr>))"

text \<open>
  \<open>serve\<close> up to its own call of \<open>boot\<close>, which makes the calling thread one more that runs handlers;
  \<open>None\<close> when it does not return. The calling thread has not prepared its pools when it restores.
\<close>

definition serve ::
  "('v::len, 'x) protocol_scheme \<Rightarrow> operating_system \<Rightarrow> u64 \<Rightarrow> program_parameters \<Rightarrow> files \<Rightarrow> 'v program
     \<Rightarrow> (serve_error + 'v program) option" where
  "serve E os now p files pg =
     (case make_server os now p (remove_socket p pg) of
        Inl e \<Rightarrow> Some (Inl e)
      | Inr pg1 \<Rightarrow>
         (case spawn_threads (pp_threads p) (start_agent p pg1) of
            Inl e \<Rightarrow> Some (Inl e)
          | Inr pg2 \<Rightarrow> map_option (\<lambda>r. case r of
                Inl e \<Rightarrow> Inl (Startup_error e)
              | Inr (st, _) \<Rightarrow> Inr (pg2\<lparr>pg_state := st, pg_threads := Suc (pg_threads pg2)\<rparr>))
              (startup_on_thread E p files (new_pool []) (pg_state pg2))))"

text \<open>The handler of the signals, and \<open>stop\<close>. A dump that cannot be written throws out of the handler,
  before the \<open>io_context\<close> is stopped.\<close>

definition on_signal ::
  "('v::len, 'x) protocol_scheme \<Rightarrow> (string \<Rightarrow> bool) \<Rightarrow> program_parameters \<Rightarrow> files \<times> 'v program
     \<Rightarrow> (files \<times> 'v program) res" where
  "on_signal E writable p = (\<lambda>(files, pg).
     bind_res (prepare_for_shutdown E writable p (pg_state pg) files) (\<lambda>files'.
       Inr (files', pg\<lparr>pg_stopped := True\<rparr>)))"

definition stop :: "program_parameters \<Rightarrow> 'v::len program \<Rightarrow> 'v program" where
  "stop p pg = remove_socket p (pg\<lparr>pg_stopped := True\<rparr>)"

section \<open>Running\<close>

text \<open>What the threads do once they run handlers, until the \<open>io_context\<close> is stopped. A handler that serves a read
  keeps its thread until it leaves the loop.\<close>

inductive program_step :: "('v::len, 'x) protocol_scheme \<Rightarrow> 'v program \<Rightarrow> 'v program \<Rightarrow> bool" for E where
  tcp_accept: "\<not> pg_stopped pg \<Longrightarrow> pg_tcp_accepting pg \<Longrightarrow> i \<notin> live_ids (pg_state pg) \<Longrightarrow>
    program_step E pg (on_tcp_accept E error i created joined ip port pg)"
| unix_accept: "\<not> pg_stopped pg \<Longrightarrow> pg_unix_accepting pg \<Longrightarrow> i \<notin> live_ids (pg_state pg) \<Longrightarrow>
    program_step E pg (on_unix_accept E error i created joined ip port pg)"
| metrics_timer: "\<not> pg_stopped pg \<Longrightarrow> pg_metrics_timer pg = Some d \<Longrightarrow> d \<le> now \<Longrightarrow>
    program_step E pg (on_metrics_timer False now pg)"
| handler: "\<not> pg_stopped pg \<Longrightarrow> turn E (pg_state pg, pg_serving pg) (st', F) \<Longrightarrow> card F \<le> pg_threads pg \<Longrightarrow>
    program_step E pg (pg\<lparr>pg_state := st', pg_serving := F\<rparr>)"
| signal: "\<not> pg_stopped pg \<Longrightarrow> on_signal E writable p (files, pg) = Inr (files', pg') \<Longrightarrow> program_step E pg pg'"
| stopped: "\<not> pg_stopped pg \<Longrightarrow> program_step E pg (stop p pg)"

text \<open>A server that listens: both accepts are outstanding and the metrics timer is armed.\<close>

definition listening :: "'v::len program \<Rightarrow> bool" where
  "listening pg \<longleftrightarrow> pg_tcp_accepting pg \<and> pg_unix_accepting pg \<and> pg_metrics_timer pg \<noteq> None \<and> pg_acceptor_ready pg"

lemma make_server_Inr:
  assumes "make_server os now p pg = Inr pg'"
  shows "listening pg'" "pg_state pg' = pg_state pg" "pg_exposed_socket pg' = pp_socket p"
    "pg_threads pg' = pg_threads pg" "pg_stopped pg' = pg_stopped pg" "pg_serving pg' = pg_serving pg"
    "os_bind_tcp os (pp_port p) = Some (pg_exposed_port pg')"
  using assms
  by (auto simp: make_server_def listening_def metrics_schedule_timer_def do_tcp_accept_def do_unix_accept_def
      split: option.splits if_splits)

lemma startup_without_persistence:
  "\<not> pp_persistent p \<Longrightarrow> startup_on_thread E p files pool st = Some (Inr (st, pool))"
  by (simp add: startup_on_thread_def prepare_for_startup_def)

lemma serve_Inr:
  fixes E :: "('v::len, 'x) protocol_scheme"
  assumes "serve E os now p files (new_program started sockets) = Some (Inr pg)" "\<not> pp_persistent p"
  shows "listening pg" "pg_state pg = make_state started" "\<not> pg_stopped pg" "0 \<le> pp_threads p"
    "pg_threads pg = Suc (nat (pp_threads p))" "pg_exposed_socket pg = pp_socket p"
    "os_bind_tcp os (pp_port p) = Some (pg_exposed_port pg)" "pg_agent pg = pp_has_master p" "pg_serving pg = {}"
proof -
  let ?pg0 = "remove_socket p (new_program started sockets :: 'v program)"
  obtain pg1 where pg1: "make_server os now p ?pg0 = Inr pg1"
    using assms(1) by (cases "make_server os now p ?pg0") (simp_all add: serve_def)
  have t: "0 \<le> pp_threads p" and pg: "pg = (start_agent p pg1)\<lparr>pg_state := pg_state pg1,
      pg_threads := Suc (pg_threads pg1 + nat (pp_threads p))\<rparr>"
    using assms
    by (auto simp: serve_def pg1 spawn_threads_def start_agent_def startup_without_persistence split: if_splits)
  note s = make_server_Inr [OF pg1]
  show "0 \<le> pp_threads p" by (rule t)
  show "listening pg" "pg_state pg = make_state started" "\<not> pg_stopped pg" "pg_threads pg = Suc (nat (pp_threads p))"
    "pg_exposed_socket pg = pp_socket p" "os_bind_tcp os (pp_port p) = Some (pg_exposed_port pg)"
    "pg_agent pg = pp_has_master p" "pg_serving pg = {}"
    using s by (simp_all add: pg listening_def start_agent_def remove_socket_def new_program_def)
qed

text \<open>C40: The program starts when the system lets it: with the parameters \<open>main\<close> builds, \<open>serve\<close> gets to run
  handlers exactly when the port and the path can be bound and the number of threads is not negative,
  on one thread more than that number, whatever socket file an earlier run has left behind.\<close>

theorem serve_starts:
  fixes E :: "('v::len, 'x) protocol_scheme"
  assumes "p = main_parameters env vm"
  shows "case serve E os now p files (new_program started sockets) of
      None \<Rightarrow> False
    | Some (Inl e) \<Rightarrow>
        e = Bind_error \<and> (os_bind_tcp os (pp_port p) = None \<or> \<not> os_bind_unix os (pp_socket p)) \<or>
        e = Length_error \<and> pp_threads p < 0
    | Some (Inr pg) \<Rightarrow> listening pg \<and> pg_threads pg = Suc (nat (pp_threads p)) \<and> 0 \<le> pp_threads p \<and>
        os_bind_unix os (pp_socket p) \<and> os_bind_tcp os (pp_port p) = Some (pg_exposed_port pg)"
proof -
  have np: "\<not> pp_persistent p" by (simp add: assms main_parameters_def default_parameters_def)
  show ?thesis
  proof (cases "serve E os now p files (new_program started sockets)")
    case None
    then show ?thesis
      by (auto simp: serve_def startup_without_persistence [OF np] split: sum.splits)
  next
    case (Some r)
    show ?thesis
    proof (cases r)
      case (Inl e)
      then show ?thesis
        using Some
        by (auto simp: serve_def make_server_def spawn_threads_def startup_without_persistence [OF np]
            remove_socket_def split: sum.splits option.splits if_splits)
    next
      case (Inr pg)
      have "os_bind_unix os (pp_socket p)"
        using Some Inr by (auto simp: serve_def make_server_def split: sum.splits option.splits if_splits)
      then show ?thesis using serve_Inr [OF Some [unfolded Inr] np] Some Inr by simp
    qed
  qed
qed


section \<open>Witnesses\<close>

definition no_options :: options where
  "no_options = \<lparr>opt_socket = None, opt_port = None, opt_threads = None, opt_has_master = None,
     opt_master_socket = None, opt_master_host = None, opt_master_port = None, opt_sync_strategy = None,
     opt_persistent = None, opt_dump = None\<rparr>"

definition permissive :: operating_system where
  "permissive = \<lparr>os_bind_tcp = Some, os_bind_unix = \<lambda>_. True\<rparr>"

lemma main_parameters_none:
  "pp_threads (main_parameters None no_options) = 1" "pp_port (main_parameters None no_options) = 9000"
  "pp_socket (main_parameters None no_options) = ''throttr.sock''"
  "\<not> pp_persistent (main_parameters None no_options)"
  by (simp_all add: main_parameters_def no_options_def value_or_def default_threads_def default_parameters_def)

text \<open>An earlier run has left its socket file behind.\<close>

lemma serve_none:
  obtains pg :: "16 program" where
    "serve sample_protocol permissive 0 (main_parameters None no_options) (\<lambda>_. None)
      (new_program 0 {''throttr.sock''}) = Some (Inr pg)"
  by (simp add: serve_def make_server_def spawn_threads_def startup_without_persistence main_parameters_none
      permissive_def remove_socket_def new_program_def start_agent_def metrics_schedule_timer_def
      do_tcp_accept_def do_unix_accept_def)

theorem serve_starts_witness:
  "\<exists>pg :: 16 program. serve sample_protocol permissive 0 (main_parameters None no_options) (\<lambda>_. None)
      (new_program 0 {''throttr.sock''}) = Some (Inr pg) \<and> listening pg \<and> pg_threads pg = 2 \<and> pg_exposed_port pg = 9000"
proof -
  obtain pg :: "16 program" where pg: "serve sample_protocol permissive 0 (main_parameters None no_options) (\<lambda>_. None)
      (new_program 0 {''throttr.sock''}) = Some (Inr pg)" by (rule serve_none)
  from serve_starts [OF refl, where E = "sample_protocol :: 16 protocol" and os = permissive and env = None and
      vm = no_options and files = "\<lambda>_. None" and now = 0 and started = 0 and sockets = "{''throttr.sock''}"] pg
  have "listening pg \<and> pg_threads pg = 2 \<and> pg_exposed_port pg = 9000"
    by (simp add: main_parameters_none permissive_def)
  then show ?thesis using pg by blast
qed


end
