(* ===== verification/Text_Output.thy ===== *)
theory Text_Output
  imports State
begin

text \<open>
  \<open>utils.hpp\<close>: the text of the debug output (builds without \<open>NDEBUG\<close>) and three functions that append to
  a byte vector, which nothing in the program calls.
\<close>

section \<open>Hexadecimal text\<close>

text \<open>\<open>fmt\<close>'s \<open>{:02X}\<close> of a byte, and the blank after it.\<close>

definition hex_upper :: "byte \<Rightarrow> char" where
  "hex_upper n = char_of (unat (if n < 10 then 48 + n else 55 + n))"

definition hex_byte :: "byte \<Rightarrow> string" where
  "hex_byte b = [hex_upper (drop_bit 4 b), hex_upper (b AND 15), CHR '' '']"

definition span_to_hex :: "bytes \<Rightarrow> string" where
  "span_to_hex buffer = concat (map hex_byte buffer)"

text \<open>The buffers are pointers, read when the text is made; \<open>None\<close> when one dangles.\<close>

definition buffers_to_hex :: "('v::len, 'x) protocol_scheme \<Rightarrow> 'v storage \<Rightarrow> message \<Rightarrow> string option" where
  "buffers_to_hex E s m =
     (let bufs = map (seg_bytes E s m) (batch m)
      in if None \<in> set bufs then None else Some (concat (map (\<lambda>b. concat (map hex_byte (the b))) bufs)))"

definition unhex :: "char \<Rightarrow> byte" where
  "unhex c = (let n = of_nat (of_char c) in if n < 58 then n - 48 else n - 55)"

fun parse_hex :: "string \<Rightarrow> bytes" where
  "parse_hex (h # l # _ # cs) = (push_bit 4 (unhex h) OR unhex l) # parse_hex cs"
| "parse_hex _ = []"

lemma unhex_hex_upper:
  assumes "n < 16"
  shows "unhex (hex_upper n) = n"
proof -
  have "unat n \<in> set [0..<16]" using assms by (simp add: word_less_nat_alt)
  then have "word_of_nat (unat n) \<in> (word_of_nat :: nat \<Rightarrow> byte) ` set [0..<16]" by (rule imageI)
  then show ?thesis
    by (auto simp: upt_rec unhex_def hex_upper_def)
qed

lemma nibbles: "push_bit 4 (drop_bit 4 b) OR (b AND 15) = (b :: byte)"
proof -
  have "(15 :: byte) = mask 4" by (simp add: mask_eq_exp_minus_1)
  then show ?thesis
    unfolding \<open>15 = mask 4\<close> by (intro bit_word_eqI) (auto simp: bit_simps)
qed

text \<open>The text determines the bytes: it is read back by taking the two digits of every group.\<close>

theorem span_to_hex_read_back: "parse_hex (span_to_hex buffer) = buffer"
proof (induction buffer)
  case (Cons b bs)
  have "unat b < 256" using unsigned_less [of b, where 'a = nat] by simp
  then have "unat (drop_bit 4 b) < 16" by (simp add: unat_drop_bit_eq drop_bit_eq_div unat_div)
  moreover have "b AND 15 \<le> 15" by (rule word_and_le1)
  ultimately have "drop_bit 4 b < 16" "b AND 15 < 16"
    by (simp_all add: word_less_nat_alt word_le_nat_alt)
  then show ?case using Cons nibbles [of b] by (simp add: span_to_hex_def hex_byte_def unhex_hex_upper)
qed (simp add: span_to_hex_def)

lemma buffers_to_hex_gather: "buffers_to_hex E s m = map_option span_to_hex (gather E s m)"
proof -
  have "(if None \<in> set bufs then None else Some (concat (map (\<lambda>b. concat (map hex_byte (the b))) bufs))) =
      map_option span_to_hex (concat_options bufs)" for bufs
  proof (induction bufs)
    case (Cons x bufs)
    then show ?case
      by (cases x; cases "concat_options bufs") (auto simp: span_to_hex_def opt_append_def split: if_splits)
  qed (simp add: span_to_hex_def)
  then show ?thesis by (simp add: buffers_to_hex_def gather_def Let_def)
qed

section \<open>Names of the enumerators\<close>

text \<open>Every value without a name of its own gets the name of the last branch.\<close>

fun ttl_to_string :: "ttl_types \<Rightarrow> string" where
  "ttl_to_string Nanoseconds = ''nanoseconds''"
| "ttl_to_string Microseconds = ''microseconds''"
| "ttl_to_string Milliseconds = ''milliseconds''"
| "ttl_to_string Seconds = ''seconds''"
| "ttl_to_string Minutes = ''minutes''"
| "ttl_to_string _ = ''hours''"

definition attribute_to_string :: "attribute_types \<Rightarrow> string" where
  "attribute_to_string t = (if t = Quota then ''quota'' else ''ttl'')"

definition entry_to_string :: "entry_types \<Rightarrow> string" where
  "entry_to_string t = (if t = Raw then ''raw'' else ''counter'')"

fun change_to_string :: "change_types \<Rightarrow> string" where
  "change_to_string Increase = ''increase''"
| "change_to_string Decrease = ''decrease''"
| "change_to_string _ = ''patch''"

section \<open>Appending to a vector\<close>

definition append_uint64_t :: "bytes \<Rightarrow> u64 \<Rightarrow> bytes res" where
  "append_uint64_t buffer value = poke (length buffer) (word_to_le value) buffer"

definition append_value_type :: "bytes \<Rightarrow> 'v::len word \<Rightarrow> bytes res" where
  "append_value_type buffer value = poke (length buffer) (word_to_le value) buffer"

text \<open>The address of the bytes is then added to the batch.\<close>

definition append_uuid :: "message \<Rightarrow> uuid \<Rightarrow> message res" where
  "append_uuid m u =
     (let offset = length (write_buffer m)
      in bind_res (poke offset (uuid_bytes u) (write_buffer m)) (\<lambda>buf.
           Inr (m\<lparr>write_buffer := buf, batch := batch m @ [In_buffer (generation m) offset 16]\<rparr>)))"

text \<open>None of them makes room: each writes past the end of the vector, whatever its length.\<close>

theorem append_out_of_bounds:
  "append_uint64_t buffer x = Inl Out_of_bounds" "append_uuid m u = Inl Out_of_bounds"
  "8 \<le> LENGTH('v) \<Longrightarrow> append_value_type buffer (y :: 'v::len word) = Inl Out_of_bounds"
  by (simp_all add: append_uint64_t_def append_uuid_def append_value_type_def poke_def uuid_bytes_def)

end
