(* ===== verification/Pipeline.thy ===== *)
theory Pipeline
  imports Connection
begin

text \<open>
  A client may send requests without waiting for answers. What comes back: for each request, in the order
  of the requests, one answer, after the events that the request published to the client itself.
\<close>

text \<open>An answer that could be read when it was built: a status byte and the details.\<close>

definition reply :: "('v::len, 'x) protocol_scheme \<Rightarrow> message \<Rightarrow> bool" where
  "reply E m \<longleftrightarrow> (\<exists>(s :: 'v storage) b bs. b \<in> {0, 1} \<and> gather E s m = Some (b # bs))"

lemma same_rx_connection:
  assumes "same_rx st st'" "the_connection k i st = Some c"
  obtains c' where "the_connection k i st' = Some c'" "rx c' = rx c" "prefix (c_posted c) (c_posted c')"
proof -
  have "list_all2 more_posted xs ys \<Longrightarrow> map_of xs i = Some c \<Longrightarrow>
      \<exists>c'. map_of ys i = Some c' \<and> rx c' = rx c \<and> prefix (c_posted c) (c_posted c')" for xs ys
    by (induction xs ys rule: list_all2_induct) (auto simp: more_posted_def split: prod.splits if_splits)
  then show thesis using assms that unfolding same_rx_def the_connection_def by blast
qed

lemma call_reply:
  assumes "request_codes_ok E" "parsers_ok E" "state_ok st"
    and "call E now ty view i (st, new_message) = Inr (st', m)"
  shows "reply E m"
proof -
  have "gather E (st_storage st') new_message = Some []" by (simp add: gather_def new_message_def)
  then show ?thesis
    using call_answers_helper [OF assms(1-3) unwritten_new, where now = now and ty = ty and view = view and i = i] assms(4)
    by (auto simp: reply_def)
qed

text \<open>One request: its events and then its answer are posted to the connection.\<close>

lemma serve_request_posts:
  assumes "request_codes_ok E" "parsers_ok E" "state_ok st" "the_connection k i st = Some c"
    and "serve_request E now k i v st = Inr st'"
  obtains c' es m where "the_connection k i st' = Some c'" "c_posted c' = c_posted c @ es @ [m]" "reply E m"
proof (cases rule: serve_request_cases [OF assms(3,4), of v E now])
  case (2 st2)
  obtain st3 m where call: "call E now (hd v) v i (st2, new_message) = Inr (st3, m)"
    and st': "st' = on_connection k i (send m) st3"
    using assms(5) 2(1) by (auto simp: res_simps)
  obtain c2 where "the_connection k i st2 = Some c2" "c_posted c2 = c_posted c" using 2(6) by auto
  moreover from this(1) obtain c3 where "the_connection k i st3 = Some c3" "prefix (c_posted c2) (c_posted c3)"
    using same_rx_connection [OF call_keeps(2) [OF assms(1) 2(2,3) call]] by metis
  ultimately obtain es where "the_connection k i st3 = Some c3" "c_posted c3 = c_posted c @ es"
    by (auto simp: prefix_def)
  then show thesis
    using that [of "send m c3" es m] call_reply [OF assms(1,2) 2(2) call]
    by (simp add: st' the_connection_on send_def)
qed (use assms(5) in simp)

text \<open>What is posted for a list of requests.\<close>

definition replies_to :: "('v::len, 'x) protocol_scheme \<Rightarrow> bytes list \<Rightarrow> message list \<Rightarrow> bool" where
  "replies_to E vs ms \<longleftrightarrow> (\<exists>parts. ms = concat parts \<and>
     list_all2 (\<lambda>v part. \<exists>es m. part = es @ [m] \<and> reply E m) vs parts)"

lemma replies_to_Nil [simp]: "replies_to E [] ms \<longleftrightarrow> ms = []"
  by (auto simp: replies_to_def)

lemma replies_to_Cons: "reply E m \<Longrightarrow> replies_to E vs ms \<Longrightarrow> replies_to E (v # vs) (es @ m # ms)"
  unfolding replies_to_def
proof (elim exE conjE)
  fix parts
  assume "reply E m" "ms = concat parts" "list_all2 (\<lambda>v part. \<exists>es m. part = es @ [m] \<and> reply E m) vs parts"
  then show "\<exists>parts. es @ m # ms = concat parts \<and>
      list_all2 (\<lambda>v part. \<exists>es m. part = es @ [m] \<and> reply E m) (v # vs) parts"
    by (intro exI [of _ "(es @ [m]) # parts"]) auto
qed

lemma serve_all_posts:
  assumes "request_codes_ok E" "parsers_ok E" "state_ok st" "the_connection k i st = Some c"
    and "serve_all E clock t k i vs st = Inr st'"
  shows "\<exists>c' ms. the_connection k i st' = Some c' \<and> c_posted c' = c_posted c @ ms \<and> replies_to E vs ms"
  using assms(3-)
proof (induction vs arbitrary: st c t)
  case (Cons v vs)
  from Cons.prems(3) obtain st1 where st1: "serve_request E (clock t) k i v st = Inr st1"
    "serve_all E clock (Suc t) k i vs st1 = Inr st'" by (auto simp: res_simps)
  obtain c1 es m where c1: "the_connection k i st1 = Some c1" "c_posted c1 = c_posted c @ es @ [m]" "reply E m"
    using serve_request_posts [OF assms(1,2) Cons.prems(1,2) st1(1)] .
  have "state_ok st1" using serve_request_frame(1) [OF assms(1) Cons.prems(1,2) st1(1)] .
  from Cons.IH [OF this c1(1) st1(2)] obtain c' ms where
    "the_connection k i st' = Some c'" "c_posted c' = c_posted c1 @ ms" "replies_to E vs ms" by blast
  then show ?case using c1(2) replies_to_Cons [OF c1(3)] by (intro exI [of _ c'] exI [of _ "es @ m # ms"]) simp
qed simp


section \<open>Witness\<close>

text \<open>A client sends WHOAMI.\<close>

lemma whoami_read:
  "\<exists>st'. on_read (sample_protocol :: 16 protocol) (\<lambda>_. 9) Tcp 1 (Some [16]) two_clients = Inr st'"
  "fst (frames (sample_protocol :: 16 protocol) [16]) = [[16]]"
proof -
  let ?E = "sample_protocol :: 16 protocol" and ?st = "on_connection Tcp 1 (received [16]) two_clients"
  have f: "frames ?E [16] = ([[16]], [])"
    by (simp add: frames.simps sample_size request_of_def enum_request_types_def declared_size_def fixed_part_def)
  then show "fst (frames ?E [16]) = [[16]]" by simp
  have len: "length [16 :: byte] \<le> room (client 1)" by (simp add: client_pending)
  note r = received_state [OF two_clients_ok two_clients_connection client_buffer_ok len]
  obtain st1 where "serve_request ?E 9 Tcp 1 [16] ?st = Inr st1"
  proof (cases rule: serve_request_cases [OF r(1,2), of "[16]" ?E 9])
    case (2 st2)
    obtain m where "call ?E 9 16 [16] 1 (st2, new_message) = Inr (st2, m)" using call_whoami by blast
    then show thesis using that 2(1) by simp
  qed simp
  then show "\<exists>st'. on_read ?E (\<lambda>_. 9) Tcp 1 (Some [16]) two_clients = Inr st'"
    using on_read_serves_helper [OF sample_request_codes_ok two_clients_ok two_clients_connection client_buffer_ok len,
        of "\<lambda>_. 9"]
    by (simp add: client_pending f sample_size)
qed


end
