(* ===== verification/Wire.thy ===== *)
theory Wire
  imports Pipeline
begin

text \<open>
  From the bytes a client sends to the bytes it is answered with: framing, dispatch, the command and the
  answer posted, composed.
\<close>

section \<open>A request runs its own command\<close>

lemma call_runs:
  assumes "request_codes_ok E" "ty = request_code E r" "(r, f) \<in> set (command_functions E (dispatch (length view) E))"
  shows "call E now ty view i sm = f now ty view i sm"
  using command_of_request [OF assms(1,3)] assms(2) by (simp add: call_def)

text \<open>A request whose command succeeds: what its turn of the loop leaves.\<close>

lemma serve_request_runs:
  assumes "request_codes_ok E" "state_ok st" "the_connection k i st = Some c" "hd v = request_code E r"
    and "(r, f) \<in> set (command_functions E (dispatch (length v) E))"
    and run: "\<And>st2. state_ok st2 \<Longrightarrow> st_storage st2 = st_storage st \<Longrightarrow>
      \<exists>st3 m. f now (hd v) v i (st2, new_message) = Inr (st3, m) \<and> same_rest st2 st3 \<and> P (st_storage st3) m"
  obtains st' c' m where "serve_request E now k i v st = Inr st'" "the_connection k i st' = Some c'"
    "c_posted c' = c_posted c @ [m]" "rx c' = rx (consume (length v) c)" "state_ok st'" "P (st_storage st') m"
proof -
  have code: "unat (hd v) < 32" using assms(1,4) by (simp add: request_codes_ok_def)
  obtain st2 where st2: "serve_request E now k i v st = bind_res (call E now (hd v) v i (st2, new_message)) (\<lambda>(st3, m).
      Inr (on_connection k i (send m) st3))"
    "state_ok st2" "map_option c_posted (the_connection k i st2) = Some (c_posted c)" "st_storage st2 = st_storage st"
    by (rule serve_request_cases [OF assms(2,3), of v E now]) (use code in simp_all)
  obtain st3 m where f: "f now (hd v) v i (st2, new_message) = Inr (st3, m)" "same_rest st2 st3" "P (st_storage st3) m"
    using run [OF st2(2,4)] by blast
  let ?st' = "on_connection k i (send m) st3"
  have served: "serve_request E now k i v st = Inr ?st'"
    using st2(1) f(1) call_runs [OF assms(1,4,5)] by simp
  have "the_connection k i st3 = the_connection k i st2" using f(2) by (simp add: the_connection_def same_rest_def)
  then obtain c2 where c2: "the_connection k i st3 = Some c2" "c_posted c2 = c_posted c" using st2(3) by auto
  note frame = serve_request_frame(1,2) [OF assms(1-3) served]
  show thesis
  proof (rule that [OF served])
    show c': "the_connection k i ?st' = Some (send m c2)" using c2(1) by (simp add: the_connection_on)
    show "c_posted (send m c2) = c_posted c @ [m]" using c2(2) by (simp add: send_def)
    show "rx (send m c2) = rx (consume (length v) c)" using frame(2) c' by (simp add: rx_of_def)
  qed (use frame(1) f(3) in simp_all)
qed

section \<open>SET and GET in one read\<close>

lemma set_command_total:
  assumes "parse_set E v = Some r" "get_expiration_point E now (set_ttl_type r) (set_ttl r) = Inr ex"
  shows "\<exists>st' m'. set_command E now ty v i (st, m) = Inr (st', m')"
proof -
  have "value_size E \<le> length (set_ttl r)"
    using assms(2) by (auto simp: get_expiration_point_def read_value_def Let_def split: if_splits)
  then obtain x where "create_use E now (set_key r) (set_value r) (set_ttl_type r) (set_ttl r) Raw False st = Inr x"
    using create_use_total by blast
  then show ?thesis using assms(1) by (cases x) (simp add: set_command_def)
qed

lemma set_command_rest:
  assumes "set_command E now ty v i (st, m) = Inr (st', m')" "entries_ok st"
  shows "same_rest st st'"
  using assms by (auto simp: set_command_def res_simps dest: create_use_frame)

lemma query_command_rest: "query_command E now ty v i (st, m) = Inr (st', m') \<Longrightarrow> same_rest st st'"
  using query_command_state find_or_fail_rest by blast

text \<open>One turn of the loop for a \<open>SET\<close>, and one for a \<open>GET\<close>.\<close>

lemma serve_set:
  fixes E :: "('v::len, 'x) protocol_scheme"
  assumes "request_codes_ok E" "state_ok st" "the_connection k i st = Some c"
    and "hd v = request_code E Set_req" "parse_set E v = Some r"
    and "get_expiration_point E now (set_ttl_type r) (set_ttl r) = Inr ex"
    and "case slots (st_storage st) (set_key r) of
      Free \<Rightarrow> True | Live e \<Rightarrow> e_type e \<noteq> Counter | Lingering e \<Rightarrow> False"
  obtains st' c' e where "serve_request E now k i v st = Inr st'" "the_connection k i st' = Some c'" "state_ok st'"
    "c_posted c' = c_posted c @ [emplace_back success_response new_message]"
    "slots (st_storage st') (set_key r) = Live e" "e_buffer e = set_value r" "e_ttl_type e = set_ttl_type r"
    "e_expires_at e = ex"
proof -
  define P where "P = (\<lambda>(s :: 'v storage) m. m = emplace_back success_response new_message \<and>
    (\<exists>e. slots s (set_key r) = Live e \<and> e_buffer e = set_value r \<and> e_ttl_type e = set_ttl_type r \<and> e_expires_at e = ex))"
  obtain st' c' m where "serve_request E now k i v st = Inr st'" "the_connection k i st' = Some c'"
    "c_posted c' = c_posted c @ [m]" "state_ok st'" "P (st_storage st') m"
  proof (rule serve_request_runs [OF assms(1-4), of "set_command E" now P])
    show "(Set_req, set_command E) \<in> set (command_functions E (dispatch (length v) E))"
      by (simp add: command_functions_def)
    fix st2 assume st2: "state_ok st2" "st_storage st2 = st_storage st"
    then have e: "entries_ok st2" by (simp add: state_ok_def)
    obtain st3 m where s: "set_command E now (hd v) v i (st2, new_message) = Inr (st3, m)"
      using set_command_total [OF assms(5,6)] by blast
    have "case slots (st_storage st2) (set_key r) of Free \<Rightarrow> True | Live e \<Rightarrow> e_type e \<noteq> Counter | Lingering e \<Rightarrow> False"
      using assms(7) st2(2) by simp
    then have "P (st_storage st3) m"
      by (rule set_command_stores [OF e assms(5,6) _ s]) (simp add: P_def)
    then show "\<exists>st3 m. set_command E now (hd v) v i (st2, new_message) = Inr (st3, m) \<and> same_rest st2 st3 \<and>
        P (st_storage st3) m" using s set_command_rest [OF s e] by blast
  qed
  then show thesis using that by (auto simp: P_def)
qed

lemma serve_get:
  fixes E :: "('v::len, 'x) protocol_scheme"
  assumes "request_codes_ok E" "state_ok st" "the_connection k i st = Some c"
    and "hd w = request_code E Get_req" "parse_query E w = Some key" "slots (st_storage st) key = Live e"
  obtains st' c' n where "serve_request E now k i w st = Inr st'" "the_connection k i st' = Some c'"
    "c_posted c' = c_posted c @ [n]"
    "gather E (st_storage st') n = Some (get_answer E now (e_buffer e) (e_ttl_type e) (e_expires_at e))"
proof -
  define P where "P = (\<lambda>s n. gather E s n = Some (get_answer E now (e_buffer e) (e_ttl_type e) (e_expires_at e)))"
  obtain st' c' n where "serve_request E now k i w st = Inr st'" "the_connection k i st' = Some c'"
    "c_posted c' = c_posted c @ [n]" "P (st_storage st') n"
  proof (rule serve_request_runs [OF assms(1-4), of "query_command E" now P])
    show "(Get_req, query_command E) \<in> set (command_functions E (dispatch (length w) E))"
      by (simp add: command_functions_def)
    fix st2 assume st2: "state_ok st2" "st_storage st2 = st_storage st"
    then have "entries_ok st2" by (simp add: state_ok_def)
    from query_command_message [OF this assms(5) unwritten_new, of now "hd w" i] obtain st3 n where
      q: "query_command E now (hd w) w i (st2, new_message) = Inr (st3, n)"
      "gather E (st_storage st3) n = Some (query_answer E now (hd w) (Some e))"
      using st2(2) assms(6) by auto
    have "hd w \<noteq> request_code E Query_req" using assms(1,4) by (simp add: request_codes_ok_def inj_eq)
    from query_answer_get [OF this] have "P (st_storage st3) n" using q(2) by (simp add: P_def)
    then show "\<exists>st3 n. query_command E now (hd w) w i (st2, new_message) = Inr (st3, n) \<and> same_rest st2 st3 \<and>
        P (st_storage st3) n" using q(1) query_command_rest [OF q(1)] by blast
  qed simp
  then show thesis using that by (simp add: P_def)
qed


section \<open>Witness\<close>


end
